theory Spec2Isabelle
  imports Main "HOL-Library.Word" "HOL-Library.Stream" "HOL-Library.AList"
begin

unbundle bit_operations_syntax

section \<open>protorand: random population of protobuf messages from their descriptors\<close>

text \<open>
  The development embeds \<^verbatim>\<open>rand.go\<close> of package \<^verbatim>\<open>protorand\<close>. The package builds a
  \<^verbatim>\<open>dynamicpb.Message\<close> for a message descriptor and fills every field with a value drawn
  from a \<^verbatim>\<open>math/rand\<close> generator. Three libraries are used by the package and are not part
  of it: \<^verbatim>\<open>protoreflect\<close> (descriptors), \<^verbatim>\<open>dynamicpb\<close> (the message under construction) and
  \<^verbatim>\<open>math/rand\<close> (the generator). Each is modelled below as far as \<^verbatim>\<open>rand.go\<close> calls it,
  following the library's documentation.
\<close>

subsection \<open>Failures\<close>

text \<open>
  \<^verbatim>\<open>newDynamicProtoRand\<close> returns \<^verbatim>\<open>(msg, error)\<close>. Its only error is
  \<^verbatim>\<open>fmt.Errorf("unexpected type: %v", fd.Kind())\<close>, here \<open>UnexpectedType\<close>. A Go run-time
  panic (an index out of range, \<^verbatim>\<open>Intn\<close> called with a non-positive bound, a value of the
  wrong dynamic type) unwinds the call without any return value; it is the second kind
  of failure, \<open>Panic\<close>, with the panic's message.
\<close>

datatype Kind =
    BoolKind | EnumKind | Int32Kind | Sint32Kind | Uint32Kind
  | Int64Kind | Sint64Kind | Uint64Kind | Sfixed32Kind | Fixed32Kind
  | FloatKind | Sfixed64Kind | Fixed64Kind | DoubleKind
  | StringKind | BytesKind | MessageKind | GroupKind

datatype failure = UnexpectedType Kind | Panic string

subsection \<open>Descriptors (protoreflect)\<close>

text \<open>
  A field descriptor as \<^verbatim>\<open>rand.go\<close> reads it: \<^verbatim>\<open>Number()\<close>, \<^verbatim>\<open>Kind()\<close>, the cardinality
  (\<^verbatim>\<open>IsList()\<close>, \<^verbatim>\<open>IsMap()\<close> with \<^verbatim>\<open>MapKey()\<close> and \<^verbatim>\<open>MapValue()\<close>), \<^verbatim>\<open>ContainingOneof()\<close>
  (\<open>None\<close> for \<^verbatim>\<open>nil\<close>, otherwise the oneof's \<^verbatim>\<open>Name()\<close>, the only thing the code reads of
  it), \<^verbatim>\<open>Enum().Values()\<close> and \<^verbatim>\<open>Message()\<close>. Descriptors of a schema may refer to each
  other in cycles, so \<^verbatim>\<open>Message()\<close> is the full name of the message type, resolved
  through the schema, a function from names to message descriptors.
\<close>

datatype EnumValueDescriptor = EnumValueDescriptor (EnumValueName: string) (EnumValueNumber: int)

datatype FieldDescriptor =
  FieldDescriptor
    (Number: int)
    (Kind: Kind)
    (Cardinality: Cardinality)
    (ContainingOneof: "string option")
    (EnumValues: "EnumValueDescriptor list")
    (MessageName: string)
and Cardinality =
    Singular
  | Repeated
  | MapOf (MapKey: FieldDescriptor) (MapValue: FieldDescriptor)

definition IsList :: "FieldDescriptor \<Rightarrow> bool" where
  "IsList fd = (Cardinality fd = Repeated)"

definition IsMap :: "FieldDescriptor \<Rightarrow> bool" where
  "IsMap fd = (case Cardinality fd of MapOf k v \<Rightarrow> True | _ \<Rightarrow> False)"

text \<open>
  A oneof descriptor: its name and its member fields in declaration order. The code reads
  only \<^verbatim>\<open>Number()\<close> of the chosen member, and within one message a field is identified by
  its number, so the members are listed by number.
\<close>

datatype OneofDescriptor = OneofDescriptor (OneofName: string) (OneofFields: "int list")

record MessageDescriptor =
  FullName :: string
  Fields :: "FieldDescriptor list"
  Oneofs :: "OneofDescriptor list"

type_synonym Schema = "string \<Rightarrow> MessageDescriptor"

text \<open>\<^verbatim>\<open>List.Get(i)\<close> of a descriptor list and Go slice indexing: out of range panics.\<close>

definition Get :: "'a list \<Rightarrow> int \<Rightarrow> failure + 'a" where
  "Get xs i =
     (if 0 \<le> i \<and> i < int (length xs) then Inr (xs ! nat i)
      else Inl (Panic ''index out of range''))"

subsection \<open>Values and dynamic messages (protoreflect.Value, dynamicpb.Message)\<close>

text \<open>
  A \<^verbatim>\<open>protoreflect.Value\<close> holds one Go value. The floating-point values are kept as the
  63-bit draw they are computed from (\<^verbatim>\<open>float64(Int63()) / (1 << 63)\<close>, narrowed for
  \<^verbatim>\<open>float32\<close>): floating-point arithmetic is outside this development.
  A dynamic message is the full name of its descriptor and the table \<^verbatim>\<open>known\<close> from field
  numbers to values.
\<close>

datatype Value =
    Int32Val "32 word"
  | Int64Val "64 word"
  | Uint32Val "32 word"
  | Uint64Val "64 word"
  | Float32Val "64 word"
  | Float64Val "64 word"
  | StringVal string
  | BoolVal bool
  | EnumVal int
  | BytesVal string
  | MessageVal Message
  | ListVal "Value list"
  | MapVal "(Value \<times> Value) list"
and Message = Message (Descriptor: string) (known: "(int \<times> Value) list")

definition NewMessage :: "MessageDescriptor \<Rightarrow> Message" where
  "NewMessage mds = Message (FullName mds) []"

text \<open>
  \<^verbatim>\<open>dm.Set(fd, v)\<close> stores \<open>v\<close> under the field's number. (\<^verbatim>\<open>dynamicpb\<close> also clears the
  other members of the field's oneof. The field loop sets no member of a oneof but the one
  recorded for it, so for the descriptors of \<^verbatim>\<open>protoreflect\<close> there is never anything to
  clear, and the table is kept without it.)
\<close>

definition Set :: "Message \<Rightarrow> FieldDescriptor \<Rightarrow> Value \<Rightarrow> Message" where
  "Set dm fd v = Message (Descriptor dm) (AList.update (Number fd) v (known dm))"

text \<open>
  \<^verbatim>\<open>dm.Has(fd)\<close> for the number of a oneof member or of any other field with explicit
  presence: the number has an entry in \<^verbatim>\<open>known\<close>.
\<close>

definition populated :: "Message \<Rightarrow> int \<Rightarrow> bool" where
  "populated dm n = (map_of (known dm) n \<noteq> None)"

text \<open>
  \<^verbatim>\<open>dm.Mutable(fd).List()\<close>: the list already stored for the field, or a new empty list;
  the type assertion \<^verbatim>\<open>.List()\<close> panics on a value that is not a list. Likewise
  \<^verbatim>\<open>dm.Mutable(fd).Map()\<close>.
\<close>

definition MutableList :: "Message \<Rightarrow> FieldDescriptor \<Rightarrow> failure + Value list" where
  "MutableList dm fd =
     (case map_of (known dm) (Number fd) of
        None \<Rightarrow> Inr []
      | Some (ListVal xs) \<Rightarrow> Inr xs
      | Some _ \<Rightarrow> Inl (Panic ''type mismatch''))"

definition MutableMap :: "Message \<Rightarrow> FieldDescriptor \<Rightarrow> failure + (Value \<times> Value) list" where
  "MutableMap dm fd =
     (case map_of (known dm) (Number fd) of
        None \<Rightarrow> Inr []
      | Some (MapVal kvs) \<Rightarrow> Inr kvs
      | Some _ \<Rightarrow> Inl (Panic ''type mismatch''))"

subsection \<open>The generator of math/rand\<close>

text \<open>
  \<^verbatim>\<open>rand.New(rand.NewSource(seed))\<close> is a deterministic generator: its state fixes the
  whole sequence of 64-bit words that the source will deliver, and a draw takes the next
  word. \<^verbatim>\<open>Intn\<close>, \<^verbatim>\<open>Float64\<close> and \<^verbatim>\<open>Float32\<close> draw again while the draw is outside
  the range they accept, so the number of words that a call consumes depends on the
  words, and the call returns only when an acceptable word arrives. \<^verbatim>\<open>math/rand\<close>
  documents each of these methods as returning a value. A state of the model is
  therefore a sequence of words in which, at every point, a word with bit 62 clear is
  still to come: such a word gives a 63-bit draw below \<open>2^62\<close> and a 31-bit draw below
  \<open>2^30\<close>, and every redraw loop accepts it. The sequence is written as a stream of
  blocks; a block is a finite list of arbitrary words followed by one more word, which
  is delivered with bit 62 cleared. Any finite sequence of words begins some state.
  \<open>pending\<close>, the number of words left in the list of the current block, bounds the
  number of redraws.
\<close>

type_synonym Rand = "(64 word list \<times> 64 word) stream"

definition pending :: "Rand \<Rightarrow> nat" where
  "pending r = length (fst (shd r))"

text \<open>
  The methods of \<^verbatim>\<open>rand.Rand\<close>, as in the Go standard library:
  \<^item> \<^verbatim>\<open>Uint64\<close>: the next word of the source;
  \<^item> \<^verbatim>\<open>Int63\<close>: "a non-negative pseudo-random 63-bit integer as an int64", the source's
    word masked with \<^verbatim>\<open>1<<63 - 1\<close>;
  \<^item> \<^verbatim>\<open>Int31\<close>: "a non-negative pseudo-random 31-bit integer as an int32",
    \<^verbatim>\<open>int32(r.Int63() >> 32)\<close>;
  \<^item> \<^verbatim>\<open>Uint32\<close>: \<^verbatim>\<open>uint32(r.Int63() >> 31)\<close>.
\<close>

definition Uint64 :: "Rand \<Rightarrow> 64 word \<times> Rand" where
  "Uint64 r =
     (case shd r of
        (w # ws, g) \<Rightarrow> (w, (ws, g) ## stl r)
      | ([], g) \<Rightarrow> (unset_bit 62 g, stl r))"

definition Int63 :: "Rand \<Rightarrow> 64 word \<times> Rand" where
  "Int63 r = (let (w, r') = Uint64 r in (w AND mask 63, r'))"

definition Int31 :: "Rand \<Rightarrow> 32 word \<times> Rand" where
  "Int31 r = (let (v, r') = Int63 r in (ucast (signed_drop_bit 32 v), r'))"

definition Uint32 :: "Rand \<Rightarrow> 32 word \<times> Rand" where
  "Uint32 r = (let (v, r') = Int63 r in (ucast (signed_drop_bit 31 v), r'))"

text \<open>
  Facts about signed words and about the draws, for the termination of the redraw loops:
  a draw either shortens the current block or is small.
\<close>

lemma sint_uint_small: "uint w < 2 ^ (LENGTH('a) - Suc 0) \<Longrightarrow> sint w = uint w" for w :: "'a::len word"
proof -
  assume "uint w < 2 ^ (LENGTH('a) - Suc 0)"
  moreover have "- (2 ^ (LENGTH('a) - Suc 0)) \<le> (0 :: int)" by simp
  then have "- (2 ^ (LENGTH('a) - Suc 0)) \<le> uint w"
    by (rule order_trans) simp
  ultimately show ?thesis
    by (simp add: sint_uint signed_take_bit_int_eq_self)
qed

lemma sint_nonneg_uint: "0 \<le> sint w \<Longrightarrow> sint w = uint w" for w :: "'a::len word"
proof -
  assume a: "0 \<le> sint w"
  have "sint w < 2 ^ (LENGTH('a) - Suc 0)" by (rule sint_less)
  also have "\<dots> \<le> (2 :: int) ^ LENGTH('a)" by (rule power_increasing) simp_all
  finally have "take_bit LENGTH('a) (sint w) = sint w"
    using a by (simp add: take_bit_int_eq_self)
  then show ?thesis by (simp add: uint_sint)
qed

lemma small64: "\<not> bit (v :: 64 word) 62 \<Longrightarrow> \<not> bit v 63 \<Longrightarrow> sint v < 2 ^ 62"
proof -
  assume a: "\<not> bit v 62" "\<not> bit v 63"
  have "take_bit 62 v = v"
  proof (rule bit_word_eqI)
    fix n :: nat
    assume "n < LENGTH(64)"
    with a have "bit v n \<Longrightarrow> n < 62"
      by (cases "n = 62"; cases "n = 63") auto
    then show "bit (take_bit 62 v) n \<longleftrightarrow> bit v n"
      by (auto simp: bit_simps)
  qed
  then have u: "uint v < 2 ^ 62"
    by (metis unsigned_take_bit_eq take_bit_int_less_exp)
  then have "sint v = uint v"
    by (intro sint_uint_small) simp
  with u show ?thesis by simp
qed

lemma small32: "\<not> bit (v :: 32 word) 30 \<Longrightarrow> \<not> bit v 31 \<Longrightarrow> sint v < 2 ^ 30"
proof -
  assume a: "\<not> bit v 30" "\<not> bit v 31"
  have "take_bit 30 v = v"
  proof (rule bit_word_eqI)
    fix n :: nat
    assume "n < LENGTH(32)"
    with a have "bit v n \<Longrightarrow> n < 30"
      by (cases "n = 30"; cases "n = 31") auto
    then show "bit (take_bit 30 v) n \<longleftrightarrow> bit v n"
      by (auto simp: bit_simps)
  qed
  then have u: "uint v < 2 ^ 30"
    by (metis unsigned_take_bit_eq take_bit_int_less_exp)
  then have "sint v = uint v"
    by (intro sint_uint_small) simp
  with u show ?thesis by simp
qed

lemma max31:
  fixes n :: "32 word"
  assumes "0 < sint n"
  shows "sint (2 ^ 31 - 1 - 2 ^ 31 mod n :: 32 word) = 2 ^ 31 - 1 - 2 ^ 31 mod sint n"
proof -
  define k where "k = 2 ^ 31 - 1 - 2 ^ 31 mod sint n"
  have u: "sint n = uint n" using assms by (simp add: sint_nonneg_uint)
  have "uint (2 ^ 31 mod n) = uint (2 ^ 31 :: 32 word) mod uint n" by (rule uint_mod_distrib)
  also have "uint (2 ^ 31 :: 32 word) = 2 ^ 31" by simp
  finally have m: "uint (2 ^ 31 mod n) = 2 ^ 31 mod sint n" using u by simp
  have "2 ^ 31 mod n = (word_of_int (2 ^ 31 mod sint n) :: 32 word)"
    by (metis m word_of_int_uint)
  then have e: "2 ^ 31 - 1 - 2 ^ 31 mod n = (word_of_int k :: 32 word)"
    by (simp add: k_def)
  have "0 \<le> (2 ^ 31 :: int) mod sint n" "(2 ^ 31 :: int) mod sint n < 2 ^ 31"
    using assms sint_less [of n] by (simp_all add: pos_mod_bound [THEN less_trans])
  then have "- (2 ^ 31) \<le> k" "k < 2 ^ 31"
    by (simp_all add: k_def)
  then have "sint (word_of_int k :: 32 word) = k"
    by (simp add: signed_of_int signed_take_bit_int_eq_self)
  with e show ?thesis by (simp only: k_def)
qed

lemma max63:
  fixes n :: "64 word"
  assumes "0 < sint n"
  shows "sint (2 ^ 63 - 1 - 2 ^ 63 mod n :: 64 word) = 2 ^ 63 - 1 - 2 ^ 63 mod sint n"
proof -
  define k where "k = 2 ^ 63 - 1 - 2 ^ 63 mod sint n"
  have u: "sint n = uint n" using assms by (simp add: sint_nonneg_uint)
  have "uint (2 ^ 63 mod n) = uint (2 ^ 63 :: 64 word) mod uint n" by (rule uint_mod_distrib)
  also have "uint (2 ^ 63 :: 64 word) = 2 ^ 63" by simp
  finally have m: "uint (2 ^ 63 mod n) = 2 ^ 63 mod sint n" using u by simp
  have "2 ^ 63 mod n = (word_of_int (2 ^ 63 mod sint n) :: 64 word)"
    by (metis m word_of_int_uint)
  then have e: "2 ^ 63 - 1 - 2 ^ 63 mod n = (word_of_int k :: 64 word)"
    by (simp add: k_def)
  have "0 \<le> (2 ^ 63 :: int) mod sint n" "(2 ^ 63 :: int) mod sint n < 2 ^ 63"
    using assms sint_less [of n] by (simp_all add: pos_mod_bound [THEN less_trans])
  then have "- (2 ^ 63) \<le> k" "k < 2 ^ 63"
    by (simp_all add: k_def)
  then have "sint (word_of_int k :: 64 word) = k"
    by (simp add: signed_of_int signed_take_bit_int_eq_self)
  with e show ?thesis by (simp only: k_def)
qed

lemma mod_small31: "0 < k \<Longrightarrow> k < 2 ^ 31 \<Longrightarrow> (2 ^ 31 :: int) mod k \<le> 2 ^ 30"
proof (cases "k \<le> 2 ^ 30")
  case True
  assume "0 < k"
  then have "(2 ^ 31 :: int) mod k < k" by simp
  with True show ?thesis by simp
next
  case False
  assume k: "0 < k" "k < 2 ^ 31"
  have "(2 ^ 31 :: int) mod k = (2 ^ 31 - k) mod k"
    by simp
  also have "\<dots> = 2 ^ 31 - k"
    using k False by (intro mod_pos_pos_trivial) simp_all
  finally show ?thesis using False by simp
qed

lemma mod_small63: "0 < k \<Longrightarrow> k < 2 ^ 63 \<Longrightarrow> (2 ^ 63 :: int) mod k \<le> 2 ^ 62"
proof (cases "k \<le> 2 ^ 62")
  case True
  assume "0 < k"
  then have "(2 ^ 63 :: int) mod k < k" by simp
  with True show ?thesis by simp
next
  case False
  assume k: "0 < k" "k < 2 ^ 63"
  have "(2 ^ 63 :: int) mod k = (2 ^ 63 - k) mod k"
    by simp
  also have "\<dots> = 2 ^ 63 - k"
    using k False by (intro mod_pos_pos_trivial) simp_all
  finally show ?thesis using False by simp
qed

lemma Uint64_pending: "Uint64 r = (w, r') \<Longrightarrow> pending r' < pending r \<or> \<not> bit w 62"
  by (auto simp: Uint64_def pending_def bit_simps split: prod.splits list.splits)

lemma Int63_pending: "Int63 r = (v, r') \<Longrightarrow> pending r' < pending r \<or> sint v < 2 ^ 62"
proof -
  assume a: "Int63 r = (v, r')"
  obtain w where w: "Uint64 r = (w, r')" "v = w AND mask 63"
    using a by (auto simp: Int63_def split: prod.splits)
  show ?thesis
  proof (cases "bit w 62")
    case True
    with Uint64_pending [OF w(1)] show ?thesis by simp
  next
    case False
    then have "\<not> bit v 62" "\<not> bit v 63"
      using w(2) by (simp_all add: bit_simps)
    then have "sint v < 2 ^ 62" by (rule small64)
    then show ?thesis ..
  qed
qed

lemma Int31_pending: "Int31 r = (v, r') \<Longrightarrow> pending r' < pending r \<or> sint v < 2 ^ 30"
proof -
  assume a: "Int31 r = (v, r')"
  obtain w where w: "Uint64 r = (w, r')" "v = ucast (signed_drop_bit 32 (w AND mask 63))"
    using a by (auto simp: Int31_def Int63_def split: prod.splits)
  show ?thesis
  proof (cases "bit w 62")
    case True
    with Uint64_pending [OF w(1)] show ?thesis by simp
  next
    case False
    then have "\<not> bit v 30" "\<not> bit v 31"
      using w(2) by (simp_all add: bit_simps)
    then have "sint v < 2 ^ 30" by (rule small32)
    then show ?thesis ..
  qed
qed

text \<open>
  \<^verbatim>\<open>Int31n(n)\<close>: panics when \<open>n \<le> 0\<close>; for a power of two the draw is masked with
  \<open>n - 1\<close>; otherwise \<^verbatim>\<open>max := int32((1 << 31) - 1 - (1<<31)%uint32(n))\<close>, computed in
  unsigned 32-bit arithmetic, and the loop \<^verbatim>\<open>for v > max { v = r.Int31() }\<close> draws until
  the draw is at most \<open>max\<close>; the result is \<^verbatim>\<open>v % n\<close>. The loop is the recursive call:
  \<open>n\<close>, and with it \<open>max\<close>, is the same in every round. The comparisons are signed;
  the operands of \<^verbatim>\<open>%\<close> are not negative, where the signed remainder of Go and the
  unsigned \<open>mod\<close> of words agree. \<^verbatim>\<open>Int63n\<close> is the same at 64 bits.
\<close>

function Int31n :: "32 word \<Rightarrow> Rand \<Rightarrow> failure + (32 word \<times> Rand)" where
  "Int31n n r =
     (if sint n \<le> 0 then Inl (Panic ''invalid argument to Int31n'')
      else if n AND (n - 1) = 0 then (let (v, r') = Int31 r in Inr (v AND (n - 1), r'))
      else
        (let max = 2 ^ 31 - 1 - 2 ^ 31 mod n; (v, r') = Int31 r in
         if sint v > sint max then Int31n n r' else Inr (v mod n, r')))"
  by pat_completeness auto

termination
proof (relation "measure (\<lambda>(n, r). pending r)")
  fix n :: "32 word" and r max x v r'
  assume a: "\<not> sint n \<le> 0" "max = 2 ^ 31 - 1 - 2 ^ 31 mod n" "x = Int31 r" "(v, r') = x"
    "sint max < sint v"
  from a(1) have pos: "0 < sint n" by simp
  have "(2 ^ 31 :: int) mod sint n \<le> 2 ^ 30"
    using pos sint_less [of n] by (intro mod_small31) simp_all
  with a(2) max31 [OF pos] have "2 ^ 30 - 1 \<le> sint max" by simp
  with a(5) have "\<not> sint v < 2 ^ 30" by simp
  with Int31_pending [of r v r'] a(3,4) have "pending r' < pending r" by simp
  then show "((n, r'), (n, r)) \<in> measure (\<lambda>(n, r). pending r)" by simp
qed simp

function Int63n :: "64 word \<Rightarrow> Rand \<Rightarrow> failure + (64 word \<times> Rand)" where
  "Int63n n r =
     (if sint n \<le> 0 then Inl (Panic ''invalid argument to Int63n'')
      else if n AND (n - 1) = 0 then (let (v, r') = Int63 r in Inr (v AND (n - 1), r'))
      else
        (let max = 2 ^ 63 - 1 - 2 ^ 63 mod n; (v, r') = Int63 r in
         if sint v > sint max then Int63n n r' else Inr (v mod n, r')))"
  by pat_completeness auto

termination
proof (relation "measure (\<lambda>(n, r). pending r)")
  fix n :: "64 word" and r max x v r'
  assume a: "\<not> sint n \<le> 0" "max = 2 ^ 63 - 1 - 2 ^ 63 mod n" "x = Int63 r" "(v, r') = x"
    "sint max < sint v"
  from a(1) have pos: "0 < sint n" by simp
  have "(2 ^ 63 :: int) mod sint n \<le> 2 ^ 62"
    using pos sint_less [of n] by (intro mod_small63) simp_all
  with a(2) max63 [OF pos] have "2 ^ 62 - 1 \<le> sint max" by simp
  with a(5) have "\<not> sint v < 2 ^ 62" by simp
  with Int63_pending [of r v r'] a(3,4) have "pending r' < pending r" by simp
  then show "((n, r'), (n, r)) \<in> measure (\<lambda>(n, r). pending r)" by simp
qed simp

declare Int31n.simps [simp del] Int63n.simps [simp del]

text \<open>
  \<^verbatim>\<open>Intn(n)\<close>: panics when \<open>n \<le> 0\<close>; \<^verbatim>\<open>int(r.Int31n(int32(n)))\<close> when
  \<open>n \<le> 1<<31 - 1\<close>, otherwise \<^verbatim>\<open>int(r.Int63n(int64(n)))\<close>. The \<^verbatim>\<open>int\<close> of Go has 64
  bits and is modelled by the integers. A bound above \<open>2^63 - 1\<close> is no value of
  \<^verbatim>\<open>int\<close> (the bounds in \<^verbatim>\<open>rand.go\<close> are lengths of slices and lists); for such a bound
  the model returns the 63-bit draw, which lies below it.
\<close>

definition Intn :: "int \<Rightarrow> Rand \<Rightarrow> failure + (int \<times> Rand)" where
  "Intn n r =
     (if n \<le> 0 then Inl (Panic ''invalid argument to Intn'')
      else if n \<le> 2 ^ 31 - 1 then
        (case Int31n (word_of_int n) r of
           Inl e \<Rightarrow> Inl e
         | Inr (v, r') \<Rightarrow> Inr (sint v, r'))
      else if n \<le> 2 ^ 63 - 1 then
        (case Int63n (word_of_int n) r of
           Inl e \<Rightarrow> Inl e
         | Inr (v, r') \<Rightarrow> Inr (sint v, r'))
      else (let (v, r') = Int63 r in Inr (sint v, r')))"

text \<open>
  \<^verbatim>\<open>Float64\<close> is \<^verbatim>\<open>float64(r.Int63()) / (1 << 63)\<close>, drawn again when the quotient is 1.
  Floating-point arithmetic is outside this development: the value is kept as the
  63-bit draw \<open>v\<close> that it is computed from. \<^verbatim>\<open>float64(v)\<close> rounds \<open>v\<close> to 53 significant
  bits, to nearest and ties to even, so the quotient is 1 exactly when
  \<open>v \<ge> 2^63 - 512\<close>. \<^verbatim>\<open>Float32\<close> is \<^verbatim>\<open>float32(r.Float64())\<close>, drawn again when it is 1;
  the narrowing rounds to 24 significant bits, so the result is 1 exactly when the draw
  behind the \<^verbatim>\<open>Float64\<close> is at least \<open>2^63 - 2^38 - 512\<close>.
\<close>

function Float64 :: "Rand \<Rightarrow> 64 word \<times> Rand" where
  "Float64 r =
     (let (v, r') = Int63 r in
      if 2 ^ 63 - 512 \<le> sint v then Float64 r' else (v, r'))"
  by pat_completeness auto

termination
proof (relation "measure pending")
  fix r x v r'
  assume a: "x = Int63 r" "(v, r') = x" "2 ^ 63 - 512 \<le> sint v"
  from a(3) have "\<not> sint v < 2 ^ 62" by simp
  with Int63_pending [of r v r'] a(1,2) show "(r', r) \<in> measure pending" by simp
qed simp

declare Float64.simps [simp del]

lemma Float64_pending: "Float64 r = (v, r') \<Longrightarrow> pending r' < pending r \<or> sint v < 2 ^ 62"
proof (induction r rule: Float64.induct)
  case (1 r)
  obtain v0 r0 where d: "Int63 r = (v0, r0)" by (cases "Int63 r")
  show ?case
  proof (cases "2 ^ 63 - 512 \<le> sint v0")
    case True
    then have "\<not> sint v0 < 2 ^ 62" by simp
    with Int63_pending [OF d] have less: "pending r0 < pending r" by simp
    from True d "1.prems" have "Float64 r0 = (v, r')"
      by (simp add: Float64.simps [of r])
    with "1.IH" [OF d [symmetric] refl True] less show ?thesis by auto
  next
    case False
    with d "1.prems" have "v = v0" "r' = r0"
      by (simp_all add: Float64.simps [of r])
    with Int63_pending [OF d] show ?thesis by simp
  qed
qed

function Float32 :: "Rand \<Rightarrow> 64 word \<times> Rand" where
  "Float32 r =
     (let (v, r') = Float64 r in
      if 2 ^ 63 - 2 ^ 38 - 512 \<le> sint v then Float32 r' else (v, r'))"
  by pat_completeness auto

termination
proof (relation "measure pending")
  fix r x v r'
  assume a: "x = Float64 r" "(v, r') = x" "2 ^ 63 - 2 ^ 38 - 512 \<le> sint v"
  from a(3) have "\<not> sint v < 2 ^ 62" by simp
  with Float64_pending [of r v r'] a(1,2) show "(r', r) \<in> measure pending" by simp
qed simp

declare Float32.simps [simp del]

subsection \<open>ProtoRand and its draws\<close>

definition MaxDepth :: int where
  "MaxDepth = 16"

definition Chars :: string where
  "Chars = ''abcdefghijklmnopqrstuvwxyzABCDEFGHIJKLMNOPQRSTUVWXYZ0123456789''"

record ProtoRand =
  rand :: Rand

text \<open>
  \<^verbatim>\<open>Seed\<close> replaces the generator by \<^verbatim>\<open>rand.New(rand.NewSource(seed))\<close>. The seeding
  algorithm of \<^verbatim>\<open>math/rand\<close> is the parameter \<open>NewSource\<close>. \<^verbatim>\<open>New\<close> seeds from the
  clock, the parameter \<open>now\<close>.
\<close>

definition New :: "(64 word \<Rightarrow> Rand) \<Rightarrow> 64 word \<Rightarrow> ProtoRand" where
  "New NewSource now = \<lparr>rand = NewSource now\<rparr>"

definition Seed :: "(64 word \<Rightarrow> Rand) \<Rightarrow> 64 word \<Rightarrow> ProtoRand \<Rightarrow> ProtoRand" where
  "Seed NewSource seed p = p\<lparr>rand := NewSource seed\<rparr>"

definition randInt32 :: "ProtoRand \<Rightarrow> 32 word \<times> ProtoRand" where
  "randInt32 p = (let (v, r') = Int31 (rand p) in (v, p\<lparr>rand := r'\<rparr>))"

definition randInt64 :: "ProtoRand \<Rightarrow> 64 word \<times> ProtoRand" where
  "randInt64 p = (let (v, r') = Int63 (rand p) in (v, p\<lparr>rand := r'\<rparr>))"

definition randUint32 :: "ProtoRand \<Rightarrow> 32 word \<times> ProtoRand" where
  "randUint32 p = (let (v, r') = Uint32 (rand p) in (v, p\<lparr>rand := r'\<rparr>))"

definition randUint64 :: "ProtoRand \<Rightarrow> 64 word \<times> ProtoRand" where
  "randUint64 p = (let (v, r') = Uint64 (rand p) in (v, p\<lparr>rand := r'\<rparr>))"

definition randFloat32 :: "ProtoRand \<Rightarrow> 64 word \<times> ProtoRand" where
  "randFloat32 p = (let (v, r') = Float32 (rand p) in (v, p\<lparr>rand := r'\<rparr>))"

definition randFloat64 :: "ProtoRand \<Rightarrow> 64 word \<times> ProtoRand" where
  "randFloat64 p = (let (v, r') = Float64 (rand p) in (v, p\<lparr>rand := r'\<rparr>))"

text \<open>
  \<^verbatim>\<open>randString\<close>: the loop \<^verbatim>\<open>for i := range b\<close> over the ten runes of \<open>b\<close>, each rune
  \<^verbatim>\<open>Chars[p.rand.Intn(len(Chars))]\<close>.
\<close>

fun randRunes :: "nat \<Rightarrow> ProtoRand \<Rightarrow> failure + (string \<times> ProtoRand)" where
  "randRunes 0 p = Inr ([], p)"
| "randRunes (Suc k) p =
     (case Intn (int (length Chars)) (rand p) of
        Inl e \<Rightarrow> Inl e
      | Inr (i, r') \<Rightarrow>
          (case Get Chars i of
             Inl e \<Rightarrow> Inl e
           | Inr c \<Rightarrow>
               (case randRunes k (p\<lparr>rand := r'\<rparr>) of
                  Inl e \<Rightarrow> Inl e
                | Inr (cs, p') \<Rightarrow> Inr (c # cs, p'))))"

definition randString :: "ProtoRand \<Rightarrow> failure + (string \<times> ProtoRand)" where
  "randString p = randRunes 10 p"

definition randBytes :: "ProtoRand \<Rightarrow> failure + (string \<times> ProtoRand)" where
  "randBytes p = randString p"

text \<open>\<^verbatim>\<open>p.rand.Int31()%2 == 0\<close>; the draw is non-negative, so Go's remainder is \<open>mod\<close>.\<close>

definition randBool :: "ProtoRand \<Rightarrow> bool \<times> ProtoRand" where
  "randBool p = (let (v, r') = Int31 (rand p) in (sint v mod 2 = 0, p\<lparr>rand := r'\<rparr>))"

definition chooseEnumValueRandomly ::
    "EnumValueDescriptor list \<Rightarrow> ProtoRand \<Rightarrow> failure + (int \<times> ProtoRand)" where
  "chooseEnumValueRandomly values p =
     (let ln = int (length values) in
      if ln \<le> 1 then Inr (0, p)
      else
        (case Intn (ln - 1) (rand p) of
           Inl e \<Rightarrow> Inl e
         | Inr (i, r') \<Rightarrow>
             (case Get values i of
                Inl e \<Rightarrow> Inl e
              | Inr v \<Rightarrow> Inr (EnumValueNumber v, p\<lparr>rand := r'\<rparr>))))"

definition chooseOneOfFieldRandomly ::
    "OneofDescriptor \<Rightarrow> ProtoRand \<Rightarrow> failure + (int \<times> ProtoRand)" where
  "chooseOneOfFieldRandomly oneOf p =
     (let ln = int (length (OneofFields oneOf)) in
      if ln \<le> 1 then
        (case Get (OneofFields oneOf) 0 of
           Inl e \<Rightarrow> Inl e
         | Inr f \<Rightarrow> Inr (f, p))
      else
        (case Intn ln (rand p) of
           Inl e \<Rightarrow> Inl e
         | Inr (index, r') \<Rightarrow>
             (case Get (OneofFields oneOf) index of
                Inl e \<Rightarrow> Inl e
              | Inr f \<Rightarrow> Inr (f, p\<lparr>rand := r'\<rparr>))))"

subsection \<open>The generator\<close>

text \<open>
  The first loop of \<^verbatim>\<open>newDynamicProtoRand\<close>, over \<^verbatim>\<open>mds.Oneofs()\<close>: it fills the Go map
  \<^verbatim>\<open>populatedOneOfField\<close> from oneof names to the number of the member chosen for each.
\<close>

fun selectOneofs ::
    "OneofDescriptor list \<Rightarrow> (string \<rightharpoonup> int) \<Rightarrow> ProtoRand
       \<Rightarrow> failure + ((string \<rightharpoonup> int) \<times> ProtoRand)" where
  "selectOneofs [] populatedOneOfField p = Inr (populatedOneOfField, p)"
| "selectOneofs (oneOf # rest) populatedOneOfField p =
     (case chooseOneOfFieldRandomly oneOf p of
        Inl e \<Rightarrow> Inl e
      | Inr (f, p') \<Rightarrow> selectOneofs rest (populatedOneOfField(OneofName oneOf \<mapsto> f)) p')"

text \<open>
  The test at the head of the second loop: a field inside a oneof is passed over when the
  number recorded for its oneof is not its own. Reading a Go map at a missing key gives
  the zero value.
\<close>

definition notPopulated :: "(string \<rightharpoonup> int) \<Rightarrow> FieldDescriptor \<Rightarrow> bool" where
  "notPopulated populatedOneOfField fd =
     (case ContainingOneof fd of
        None \<Rightarrow> False
      | Some name \<Rightarrow>
          (case populatedOneOfField name of None \<Rightarrow> 0 | Some n \<Rightarrow> n) \<noteq> Number fd)"

text \<open>
  \<^verbatim>\<open>newDynamicProtoRand\<close>, its closure \<^verbatim>\<open>getRandValue\<close> and its second loop, over
  \<^verbatim>\<open>mds.Fields()\<close>, here \<open>populateFields\<close>. The closure captures \<^verbatim>\<open>allowedDepth\<close>; the
  loop threads the message under construction and the generator. The \<^verbatim>\<open>default\<close> branch
  of the switch is the last, catch-all case. \<^verbatim>\<open>list.Append(value)\<close> adds at the end of the
  list from \<^verbatim>\<open>Mutable\<close>; \<^verbatim>\<open>mp.Set(key, value)\<close> replaces or adds the entry of the key.
\<close>

function
  newDynamicProtoRand ::
    "Schema \<Rightarrow> MessageDescriptor \<Rightarrow> int \<Rightarrow> ProtoRand \<Rightarrow> failure + (Message \<times> ProtoRand)"
and getRandValue ::
    "Schema \<Rightarrow> int \<Rightarrow> FieldDescriptor \<Rightarrow> ProtoRand \<Rightarrow> failure + (Value \<times> ProtoRand)"
and populateFields ::
    "Schema \<Rightarrow> int \<Rightarrow> (string \<rightharpoonup> int) \<Rightarrow> FieldDescriptor list \<Rightarrow> Message \<Rightarrow> ProtoRand
       \<Rightarrow> failure + (Message \<times> ProtoRand)"
where
  "newDynamicProtoRand S mds allowedDepth p =
     (case selectOneofs (Oneofs mds) Map.empty p of
        Inl e \<Rightarrow> Inl e
      | Inr (populatedOneOfField, p') \<Rightarrow>
          populateFields S allowedDepth populatedOneOfField (Fields mds) (NewMessage mds) p')"
| "getRandValue S allowedDepth fd p =
     (case Kind fd of
        Int32Kind \<Rightarrow> (let (v, p') = randInt32 p in Inr (Int32Val v, p'))
      | Int64Kind \<Rightarrow> (let (v, p') = randInt64 p in Inr (Int64Val v, p'))
      | Sint32Kind \<Rightarrow> (let (v, p') = randInt32 p in Inr (Int32Val v, p'))
      | Sint64Kind \<Rightarrow> (let (v, p') = randInt64 p in Inr (Int64Val v, p'))
      | Uint32Kind \<Rightarrow> (let (v, p') = randUint32 p in Inr (Uint32Val v, p'))
      | Uint64Kind \<Rightarrow> (let (v, p') = randUint64 p in Inr (Uint64Val v, p'))
      | Fixed32Kind \<Rightarrow> (let (v, p') = randUint32 p in Inr (Uint32Val v, p'))
      | Fixed64Kind \<Rightarrow> (let (v, p') = randUint64 p in Inr (Uint64Val v, p'))
      | Sfixed32Kind \<Rightarrow> (let (v, p') = randInt32 p in Inr (Int32Val v, p'))
      | Sfixed64Kind \<Rightarrow> (let (v, p') = randInt64 p in Inr (Int64Val v, p'))
      | FloatKind \<Rightarrow> (let (v, p') = randFloat32 p in Inr (Float32Val v, p'))
      | DoubleKind \<Rightarrow> (let (v, p') = randFloat64 p in Inr (Float64Val v, p'))
      | StringKind \<Rightarrow>
          (case randString p of Inl e \<Rightarrow> Inl e | Inr (s, p') \<Rightarrow> Inr (StringVal s, p'))
      | BoolKind \<Rightarrow> (let (v, p') = randBool p in Inr (BoolVal v, p'))
      | EnumKind \<Rightarrow>
          (case chooseEnumValueRandomly (EnumValues fd) p of
             Inl e \<Rightarrow> Inl e
           | Inr (n, p') \<Rightarrow> Inr (EnumVal n, p'))
      | BytesKind \<Rightarrow>
          (case randBytes p of Inl e \<Rightarrow> Inl e | Inr (s, p') \<Rightarrow> Inr (BytesVal s, p'))
      | MessageKind \<Rightarrow>
          (if allowedDepth > 0 then
             (case newDynamicProtoRand S (S (MessageName fd)) (allowedDepth - 1) p of
                Inl e \<Rightarrow> Inl e
              | Inr (rm, p') \<Rightarrow> Inr (MessageVal rm, p'))
           else Inr (MessageVal (NewMessage (S (MessageName fd))), p))
      | _ \<Rightarrow> Inl (UnexpectedType (Kind fd)))"
| "populateFields S allowedDepth populatedOneOfField [] dm p = Inr (dm, p)"
| "populateFields S allowedDepth populatedOneOfField (fd # fds) dm p =
     (if notPopulated populatedOneOfField fd then
        populateFields S allowedDepth populatedOneOfField fds dm p
      else
        (case Cardinality fd of
           Repeated \<Rightarrow>
             (case MutableList dm fd of
                Inl e \<Rightarrow> Inl e
              | Inr list \<Rightarrow>
                  (case getRandValue S allowedDepth fd p of
                     Inl e \<Rightarrow> Inl e
                   | Inr (v, p') \<Rightarrow>
                       populateFields S allowedDepth populatedOneOfField fds
                         (Set dm fd (ListVal (list @ [v]))) p'))
         | MapOf keyfd valuefd \<Rightarrow>
             (case MutableMap dm fd of
                Inl e \<Rightarrow> Inl e
              | Inr mp \<Rightarrow>
                  (case getRandValue S allowedDepth keyfd p of
                     Inl e \<Rightarrow> Inl e
                   | Inr (key, p') \<Rightarrow>
                       (case getRandValue S allowedDepth valuefd p' of
                          Inl e \<Rightarrow> Inl e
                        | Inr (v, p'') \<Rightarrow>
                            populateFields S allowedDepth populatedOneOfField fds
                              (Set dm fd (MapVal (AList.update key v mp))) p'')))
         | Singular \<Rightarrow>
             (case getRandValue S allowedDepth fd p of
                Inl e \<Rightarrow> Inl e
              | Inr (v, p') \<Rightarrow>
                  populateFields S allowedDepth populatedOneOfField fds (Set dm fd v) p')))"
  by pat_completeness auto

termination
  by (relation "(\<lambda>x. case x of
             Inl (S, mds, d, p) \<Rightarrow> nat d
           | Inr (Inl (S, d, fd, p)) \<Rightarrow> nat d
           | Inr (Inr (S, d, sel, fds, dm, p)) \<Rightarrow> nat d) <*mlex*>
        (\<lambda>x. case x of
             Inl (S, mds, d, p) \<Rightarrow> 1
           | Inr (Inl (S, d, fd, p)) \<Rightarrow> 0
           | Inr (Inr (S, d, sel, fds, dm, p)) \<Rightarrow> 0) <*mlex*>
        (\<lambda>x. case x of
             Inl (S, mds, d, p) \<Rightarrow> 0
           | Inr (Inl (S, d, fd, p)) \<Rightarrow> 0
           | Inr (Inr (S, d, sel, fds, dm, p)) \<Rightarrow> Suc (length fds)) <*mlex*> {}")
    (auto simp: wf_mlex mlex_prod_def)

declare newDynamicProtoRand.simps [simp del] getRandValue.simps [simp del]
  populateFields.simps(2) [simp del]

text \<open>
  The public entry points. The argument of \<^verbatim>\<open>Gen\<close> is a \<^verbatim>\<open>proto.Message\<close>, an interface
  value: a pointer to a generated struct or a \<^verbatim>\<open>*dynamicpb.Message\<close>, with the reflective
  view \<^verbatim>\<open>ProtoReflect()\<close> of its contents. \<^verbatim>\<open>Gen\<close> reads the descriptor of its input and
  generates the dynamic message; an error is returned as it is. Otherwise
  \<^verbatim>\<open>reflect.New(reflect.ValueOf(in).Elem().Type())\<close> makes a zero value \<open>out\<close> of the Go
  type of the input, and \<^verbatim>\<open>proto.Merge(out, dm)\<close> copies the populated fields of \<open>dm\<close>
  into it. For a generated type \<open>out\<close> is an empty message of the input's descriptor,
  and after the merge it holds the fields of \<open>dm\<close>. (The merge passes over a field
  without presence that holds its zero value; such a field reads the same with or
  without an entry in the table, and the table is kept as it is.) The zero value of
  \<^verbatim>\<open>dynamicpb.Message\<close> has no descriptor: \<^verbatim>\<open>proto.Merge\<close> dereferences it and panics.
\<close>

definition NewDynamicProtoRand ::
    "Schema \<Rightarrow> MessageDescriptor \<Rightarrow> ProtoRand \<Rightarrow> failure + (Message \<times> ProtoRand)" where
  "NewDynamicProtoRand S mds p = newDynamicProtoRand S mds MaxDepth p"

datatype ProtoMessage =
    GeneratedMessage (ProtoReflect: Message)
  | DynamicMessage (ProtoReflect: Message)

definition Gen ::
    "Schema \<Rightarrow> ProtoMessage \<Rightarrow> ProtoRand \<Rightarrow> failure + (ProtoMessage \<times> ProtoRand)" where
  "Gen S inp p =
     (case NewDynamicProtoRand S (S (Descriptor (ProtoReflect inp))) p of
        Inl err \<Rightarrow> Inl err
      | Inr (dm, p') \<Rightarrow>
          (case inp of
             GeneratedMessage m \<Rightarrow>
               Inr (GeneratedMessage (Message (Descriptor m) (known dm)), p')
           | DynamicMessage m \<Rightarrow>
               Inl (Panic ''invalid memory address or nil pointer dereference'')))"

text \<open>The kinds that have a case in the switch of \<^verbatim>\<open>getRandValue\<close>, in its order.\<close>

definition dispatchKinds :: "Kind list" where
  "dispatchKinds =
     [Int32Kind, Int64Kind, Sint32Kind, Sint64Kind, Uint32Kind, Uint64Kind,
      Fixed32Kind, Fixed64Kind, Sfixed32Kind, Sfixed64Kind, FloatKind, DoubleKind,
      StringKind, BoolKind, EnumKind, BytesKind, MessageKind]"

subsection \<open>Example inputs\<close>

text \<open>
  A generator whose source delivers the word \<open>5 * 2^32\<close> for ever (every block is this
  word alone, and its bit 62 is clear): every \<^verbatim>\<open>Int31\<close> draw is 5, and no draw is
  rejected. A schema with a self-referential message \<^verbatim>\<open>Node\<close>, a message \<^verbatim>\<open>Sample\<close> with a
  repeated enum field, a map field and a oneof of three members, and a message \<^verbatim>\<open>Legacy\<close>
  with a group field; apart from the schema, a malformed descriptor \<^verbatim>\<open>Hollow\<close> whose oneof
  has no member.
\<close>

definition fives :: ProtoRand where
  "fives = \<lparr>rand = sconst ([], 21474836480)\<rparr>"

definition nodeValue :: FieldDescriptor where
  "nodeValue = FieldDescriptor 1 Sint32Kind Singular None [] []"

definition nodeNext :: FieldDescriptor where
  "nodeNext = FieldDescriptor 2 MessageKind Singular None [] ''Node''"

definition colours :: "EnumValueDescriptor list" where
  "colours = [EnumValueDescriptor ''RED'' 0, EnumValueDescriptor ''GREEN'' 1,
              EnumValueDescriptor ''BLUE'' 2]"

definition sampleColours :: FieldDescriptor where
  "sampleColours = FieldDescriptor 1 EnumKind Repeated None colours []"

definition sampleIndex :: FieldDescriptor where
  "sampleIndex =
     FieldDescriptor 2 MessageKind
       (MapOf (FieldDescriptor 1 Int32Kind Singular None [] [])
              (FieldDescriptor 2 BoolKind Singular None [] []))
       None [] ''Sample.IndexEntry''"

definition sampleFlag :: FieldDescriptor where
  "sampleFlag = FieldDescriptor 3 BoolKind Singular (Some ''choice'') [] []"

definition sampleCount :: FieldDescriptor where
  "sampleCount = FieldDescriptor 4 Uint32Kind Singular (Some ''choice'') [] []"

definition sampleTotal :: FieldDescriptor where
  "sampleTotal = FieldDescriptor 5 Int64Kind Singular (Some ''choice'') [] []"

definition sampleChoice :: OneofDescriptor where
  "sampleChoice = OneofDescriptor ''choice'' [3, 4, 5]"

definition legacyGroup :: FieldDescriptor where
  "legacyGroup = FieldDescriptor 2 GroupKind Singular None [] ''Legacy.Body''"

definition legacyFlag :: FieldDescriptor where
  "legacyFlag = FieldDescriptor 3 BoolKind Singular None [] []"

definition exampleSchema :: Schema where
  "exampleSchema name =
     (if name = ''Node'' then
        \<lparr>FullName = ''Node'', Fields = [nodeValue, nodeNext], Oneofs = []\<rparr>
      else if name = ''Sample'' then
        \<lparr>FullName = ''Sample'',
         Fields = [sampleColours, sampleIndex, sampleFlag, sampleCount, sampleTotal],
         Oneofs = [sampleChoice]\<rparr>
      else if name = ''Legacy'' then
        \<lparr>FullName = ''Legacy'', Fields = [nodeValue, legacyGroup, legacyFlag], Oneofs = []\<rparr>
      else \<lparr>FullName = name, Fields = [], Oneofs = []\<rparr>)"

definition hollow :: MessageDescriptor where
  "hollow = \<lparr>FullName = ''Hollow'', Fields = [nodeValue],
             Oneofs = [OneofDescriptor ''nothing'' []]\<rparr>"

text \<open>
  The messages that the example generator builds for \<^verbatim>\<open>Node\<close>: with budget \<open>n\<close> a chain of
  \<open>n + 1\<close> generated messages, the last of which holds the empty message.
\<close>

fun nodeChain :: "nat \<Rightarrow> Message" where
  "nodeChain 0 = Message ''Node'' [(1, Int32Val 5), (2, MessageVal (Message ''Node'' []))]"
| "nodeChain (Suc n) = Message ''Node'' [(1, Int32Val 5), (2, MessageVal (nodeChain n))]"

text \<open>
  A message \<^verbatim>\<open>Tree\<close> whose nested messages sit in a repeated field and in the values of
  a map (the schema that knows no other message is \<open>\<lambda>name. tree\<close>), and the messages that
  the example generator builds for it: with budget \<open>n\<close>, \<open>treeOf n\<close>.
\<close>

definition treeChildren :: FieldDescriptor where
  "treeChildren = FieldDescriptor 1 MessageKind Repeated None [] ''Tree''"

definition treeIndexKey :: FieldDescriptor where
  "treeIndexKey = FieldDescriptor 1 Int32Kind Singular None [] []"

definition treeIndexValue :: FieldDescriptor where
  "treeIndexValue = FieldDescriptor 2 MessageKind Singular None [] ''Tree''"

definition treeIndex :: FieldDescriptor where
  "treeIndex =
     FieldDescriptor 2 MessageKind (MapOf treeIndexKey treeIndexValue) None []
       ''Tree.IndexEntry''"

definition tree :: MessageDescriptor where
  "tree = \<lparr>FullName = ''Tree'', Fields = [treeChildren, treeIndex], Oneofs = []\<rparr>"

fun treeOf :: "nat \<Rightarrow> Message" where
  "treeOf 0 =
     Message ''Tree''
       [(1, ListVal [MessageVal (Message ''Tree'' [])]),
        (2, MapVal [(Int32Val 5, MessageVal (Message ''Tree'' []))])]"
| "treeOf (Suc n) =
     Message ''Tree''
       [(1, ListVal [MessageVal (treeOf n)]),
        (2, MapVal [(Int32Val 5, MessageVal (treeOf n))])]"

text \<open>The message that the example generator builds for \<^verbatim>\<open>Sample\<close>.\<close>

definition sampleMessage :: Message where
  "sampleMessage =
     Message ''Sample''
       [(1, ListVal [EnumVal 1]),
        (2, MapVal [(Int32Val 5, BoolVal False)]),
        (5, Int64Val 21474836480)]"

subsection \<open>Notions used in the statements\<close>

text \<open>
  A message descriptor as \<^verbatim>\<open>protoreflect\<close> delivers it: the field numbers are distinct, the
  oneof names are distinct, every oneof has a member, and the members of a oneof are the
  fields that name it as their containing oneof.
\<close>

definition wellFormed :: "MessageDescriptor \<Rightarrow> bool" where
  "wellFormed mds \<longleftrightarrow>
     distinct (map Number (Fields mds))
     \<and> distinct (map OneofName (Oneofs mds))
     \<and> list_all (\<lambda>group.
          OneofFields group \<noteq> []
          \<and> set (OneofFields group) =
              set (map Number
                (filter (\<lambda>f. ContainingOneof f = Some (OneofName group)) (Fields mds))))
         (Oneofs mds)"

text \<open>
  The rule of the specification for a field of message kind, in its own words: while the
  remaining budget is above 0, recurse into the nested type with the budget less 1;
  otherwise assign a default, empty instance of the nested type, drawing nothing.
\<close>

definition specNestedMessage ::
    "Schema \<Rightarrow> int \<Rightarrow> FieldDescriptor \<Rightarrow> ProtoRand \<Rightarrow> failure + (Value \<times> ProtoRand)" where
  "specNestedMessage S budget fd p =
     (if 0 < budget then
        (case newDynamicProtoRand S (S (MessageName fd)) (budget - 1) p of
           Inl err \<Rightarrow> Inl err
         | Inr (rm, p') \<Rightarrow> Inr (MessageVal rm, p'))
      else Inr (MessageVal (NewMessage (S (MessageName fd))), p))"

text \<open>
  The value that one round of the field loop computes for a field it populates: the three
  branches of the loop body up to their \<^verbatim>\<open>dm.Set\<close>. Lemma \<open>populateFields_Cons\<close> below
  shows that the loop is this computation followed by \<^verbatim>\<open>Set\<close>.
\<close>

definition fieldGen ::
    "Schema \<Rightarrow> int \<Rightarrow> Message \<Rightarrow> FieldDescriptor \<Rightarrow> ProtoRand
       \<Rightarrow> failure + (Value \<times> ProtoRand)" where
  "fieldGen S d dm fd p =
     (case Cardinality fd of
        Repeated \<Rightarrow>
          (case MutableList dm fd of
             Inl e \<Rightarrow> Inl e
           | Inr list \<Rightarrow>
               (case getRandValue S d fd p of
                  Inl e \<Rightarrow> Inl e
                | Inr (v, p') \<Rightarrow> Inr (ListVal (list @ [v]), p')))
      | MapOf keyfd valuefd \<Rightarrow>
          (case MutableMap dm fd of
             Inl e \<Rightarrow> Inl e
           | Inr mp \<Rightarrow>
               (case getRandValue S d keyfd p of
                  Inl e \<Rightarrow> Inl e
                | Inr (key, p') \<Rightarrow>
                    (case getRandValue S d valuefd p' of
                       Inl e \<Rightarrow> Inl e
                     | Inr (v, p'') \<Rightarrow> Inr (MapVal (AList.update key v mp), p''))))
      | Singular \<Rightarrow> getRandValue S d fd p)"

text \<open>
  The fields whose kind the traversal reaches, that is, on which \<^verbatim>\<open>getRandValue\<close>
  dispatches in the course of a call. \<open>reachesValue S d fd p fd'\<close>: the call
  \<open>getRandValue S d fd p\<close> dispatches on the kind of \<open>fd'\<close>, which is \<open>fd\<close> itself or, for a
  message field with budget left, a field reached in the nested call.
  \<open>reachesField S d dm fd p fd'\<close>: one round of the field loop for \<open>fd\<close> does, through the
  element of a list, the key of a map, the value of a map once the key has been
  generated, or the field itself. \<open>reachesMessage S mds d p fd'\<close>: the call
  \<open>newDynamicProtoRand S mds d p\<close> does, in the round for a populated field that the loop
  arrives at after the oneofs have been chosen and the fields before it have been
  generated.
\<close>

inductive reachesMessage ::
    "Schema \<Rightarrow> MessageDescriptor \<Rightarrow> int \<Rightarrow> ProtoRand \<Rightarrow> FieldDescriptor \<Rightarrow> bool"
  and reachesField ::
    "Schema \<Rightarrow> int \<Rightarrow> Message \<Rightarrow> FieldDescriptor \<Rightarrow> ProtoRand \<Rightarrow> FieldDescriptor \<Rightarrow> bool"
  and reachesValue ::
    "Schema \<Rightarrow> int \<Rightarrow> FieldDescriptor \<Rightarrow> ProtoRand \<Rightarrow> FieldDescriptor \<Rightarrow> bool"
where
  dispatched: "reachesValue S d fd p fd"
| nested:
    "Kind fd = MessageKind \<Longrightarrow> 0 < d \<Longrightarrow>
     reachesMessage S (S (MessageName fd)) (d - 1) p fd' \<Longrightarrow>
     reachesValue S d fd p fd'"
| singular:
    "Cardinality fd = Singular \<Longrightarrow> reachesValue S d fd p fd' \<Longrightarrow>
     reachesField S d dm fd p fd'"
| element:
    "Cardinality fd = Repeated \<Longrightarrow> MutableList dm fd = Inr list \<Longrightarrow>
     reachesValue S d fd p fd' \<Longrightarrow>
     reachesField S d dm fd p fd'"
| map_key:
    "Cardinality fd = MapOf keyfd valuefd \<Longrightarrow> MutableMap dm fd = Inr mp \<Longrightarrow>
     reachesValue S d keyfd p fd' \<Longrightarrow>
     reachesField S d dm fd p fd'"
| map_value:
    "Cardinality fd = MapOf keyfd valuefd \<Longrightarrow> MutableMap dm fd = Inr mp \<Longrightarrow>
     getRandValue S d keyfd p = Inr (key, p') \<Longrightarrow>
     reachesValue S d valuefd p' fd' \<Longrightarrow>
     reachesField S d dm fd p fd'"
| field:
    "selectOneofs (Oneofs mds) Map.empty p = Inr (sel, p0) \<Longrightarrow>
     Fields mds = before @ fd # after \<Longrightarrow>
     populateFields S d sel before (NewMessage mds) p0 = Inr (dm, p1) \<Longrightarrow>
     \<not> notPopulated sel fd \<Longrightarrow>
     reachesField S d dm fd p1 fd' \<Longrightarrow>
     reachesMessage S mds d p fd'"

section \<open>Properties\<close>

subsection \<open>The draws of math/rand\<close>

lemma Int63_nonneg: "0 \<le> sint (fst (Int63 r))"
proof -
  have "\<not> bit (fst (Uint64 r) AND mask 63 :: 64 word) (LENGTH(64) - Suc 0)"
    by (simp add: bit_simps)
  then show ?thesis
    unfolding bit_last_iff by (simp add: Int63_def split_beta)
qed

lemma Int31_nonneg: "0 \<le> sint (fst (Int31 r))"
proof -
  have "\<not> bit (ucast (signed_drop_bit 32 (fst (Uint64 r) AND mask 63 :: 64 word)) :: 32 word)
          (LENGTH(32) - Suc 0)"
    by (simp add: bit_simps)
  then show ?thesis
    unfolding bit_last_iff by (simp add: Int31_def Int63_def split_beta)
qed

lemma sint_word_of_int32: "0 < n \<Longrightarrow> n \<le> 2 ^ 31 - 1 \<Longrightarrow> sint (word_of_int n :: 32 word) = n"
  by (simp add: signed_of_int signed_take_bit_int_eq_self)

lemma sint_word_of_int64: "0 < n \<Longrightarrow> n \<le> 2 ^ 63 - 1 \<Longrightarrow> sint (word_of_int n :: 64 word) = n"
  by (simp add: signed_of_int signed_take_bit_int_eq_self)

lemma sint_pred: "0 < sint n \<Longrightarrow> sint (n - 1) = sint n - 1" for n :: "'a::len word"
proof -
  assume pos: "0 < sint n"
  have "n - 1 = word_of_int (sint n - 1)" by simp
  then have "sint (n - 1) = signed_take_bit (LENGTH('a) - Suc 0) (sint n - 1)"
    by (metis signed_of_int of_int_eq_id id_apply)
  also have "\<dots> = sint n - 1"
    using pos sint_less [of n] by (intro signed_take_bit_int_eq_self) simp_all
  finally show ?thesis .
qed

lemma sint_mod: "0 \<le> sint v \<Longrightarrow> 0 < sint n \<Longrightarrow> sint (v mod n) = sint v mod sint n" for n :: "'a::len word"
proof -
  assume a: "0 \<le> sint v" "0 < sint n"
  then have u: "sint v = uint v" "sint n = uint n"
    by (simp_all add: sint_nonneg_uint)
  have "uint (v mod n) = uint v mod uint n" by (rule uint_mod_distrib)
  moreover have "uint v mod uint n < uint n" using a u by simp
  moreover have "uint n < 2 ^ (LENGTH('a) - Suc 0)" using sint_less [of n] u by simp
  ultimately have "sint (v mod n) = uint (v mod n)"
    by (intro sint_uint_small) simp
  with u \<open>uint (v mod n) = uint v mod uint n\<close> show ?thesis by simp
qed

lemma sint_and_pred:
  "0 \<le> sint v \<Longrightarrow> 0 < sint n \<Longrightarrow> 0 \<le> sint (v AND (n - 1)) \<and> sint (v AND (n - 1)) < sint n"
  for n :: "'a::len word"
  by (simp add: signed_and_eq sint_pred)

lemma Int31_push:
  fixes v :: "32 word"
  assumes "\<not> bit v 31"
  shows "Int31 (([push_bit 32 (ucast v)], g) ## r) = (v, ([], g) ## r)"
proof -
  have "(ucast (signed_drop_bit 32 ((push_bit 32 (ucast v) :: 64 word) AND mask 63)) :: 32 word) = v"
  proof (rule bit_word_eqI)
    fix n :: nat
    assume "n < LENGTH(32)"
    with assms have "bit v n \<Longrightarrow> n < 31"
      by (cases "n = 31") auto
    with \<open>n < LENGTH(32)\<close>
    show "bit (ucast (signed_drop_bit 32 ((push_bit 32 (ucast v) :: 64 word) AND mask 63)) :: 32 word) n
            \<longleftrightarrow> bit v n"
      by (auto simp add: bit_simps)
  qed
  then show ?thesis by (simp add: Int31_def Int63_def Uint64_def)
qed

lemma Int63_head:
  fixes v :: "64 word"
  assumes "\<not> bit v 63"
  shows "Int63 (([v], g) ## r) = (v, ([], g) ## r)"
proof -
  have "v AND mask 63 = v"
  proof (rule bit_word_eqI)
    fix n :: nat
    assume "n < LENGTH(64)"
    with assms have "bit v n \<Longrightarrow> n < 63"
      by (cases "n = 63") auto
    then show "bit (v AND mask 63) n \<longleftrightarrow> bit v n"
      by (auto simp add: bit_simps)
  qed
  then show ?thesis by (simp add: Int63_def Uint64_def)
qed

lemma Int31n_range:
  "0 < sint n \<Longrightarrow> \<exists>v r'. Int31n n r = Inr (v, r') \<and> 0 \<le> sint v \<and> sint v < sint n"
proof (induction n r rule: Int31n.induct)
  case (1 n r)
  obtain v0 r0 where d: "Int31 r = (v0, r0)" by (cases "Int31 r")
  have v0: "0 \<le> sint v0" using Int31_nonneg [of r] d by simp
  show ?case
  proof (cases "n AND (n - 1) = 0")
    case True
    with "1.prems" d have "Int31n n r = Inr (v0 AND (n - 1), r0)"
      by (simp add: Int31n.simps [of n r])
    with sint_and_pred [OF v0 "1.prems"] show ?thesis by simp
  next
    case False
    show ?thesis
    proof (cases "sint v0 > sint (2 ^ 31 - 1 - 2 ^ 31 mod n :: 32 word)")
      case True
      with False "1.prems" d have "Int31n n r = Int31n n r0"
        by (simp add: Int31n.simps [of n r])
      with "1.IH" [OF _ False refl d [symmetric] refl True] "1.prems" show ?thesis by simp
    next
      case b: False
      with False "1.prems" d have "Int31n n r = Inr (v0 mod n, r0)"
        by (simp add: Int31n.simps [of n r])
      moreover have "sint (v0 mod n) = sint v0 mod sint n"
        using v0 "1.prems" by (rule sint_mod)
      ultimately show ?thesis using v0 "1.prems" by simp
    qed
  qed
qed

lemma Int63n_range:
  "0 < sint n \<Longrightarrow> \<exists>v r'. Int63n n r = Inr (v, r') \<and> 0 \<le> sint v \<and> sint v < sint n"
proof (induction n r rule: Int63n.induct)
  case (1 n r)
  obtain v0 r0 where d: "Int63 r = (v0, r0)" by (cases "Int63 r")
  have v0: "0 \<le> sint v0" using Int63_nonneg [of r] d by simp
  show ?case
  proof (cases "n AND (n - 1) = 0")
    case True
    with "1.prems" d have "Int63n n r = Inr (v0 AND (n - 1), r0)"
      by (simp add: Int63n.simps [of n r])
    with sint_and_pred [OF v0 "1.prems"] show ?thesis by simp
  next
    case False
    show ?thesis
    proof (cases "sint v0 > sint (2 ^ 63 - 1 - 2 ^ 63 mod n :: 64 word)")
      case True
      with False "1.prems" d have "Int63n n r = Int63n n r0"
        by (simp add: Int63n.simps [of n r])
      with "1.IH" [OF _ False refl d [symmetric] refl True] "1.prems" show ?thesis by simp
    next
      case b: False
      with False "1.prems" d have "Int63n n r = Inr (v0 mod n, r0)"
        by (simp add: Int63n.simps [of n r])
      moreover have "sint (v0 mod n) = sint v0 mod sint n"
        using v0 "1.prems" by (rule sint_mod)
      ultimately show ?thesis using v0 "1.prems" by simp
    qed
  qed
qed

lemma Intn_range_ex: "0 < n \<Longrightarrow> \<exists>i r'. Intn n r = Inr (i, r') \<and> 0 \<le> i \<and> i < n"
proof -
  assume pos: "0 < n"
  consider (small) "n \<le> 2 ^ 31 - 1" | (large) "\<not> n \<le> 2 ^ 31 - 1" "n \<le> 2 ^ 63 - 1"
    | (beyond) "\<not> n \<le> 2 ^ 31 - 1" "\<not> n \<le> 2 ^ 63 - 1"
    by blast
  then show ?thesis
  proof cases
    case small
    with pos have s: "sint (word_of_int n :: 32 word) = n" by (rule sint_word_of_int32)
    with pos Int31n_range [of "word_of_int n" r] obtain v r' where
      "Int31n (word_of_int n) r = Inr (v, r')" "0 \<le> sint v" "sint v < n"
      by auto
    with pos small show ?thesis by (simp add: Intn_def)
  next
    case large
    with pos have s: "sint (word_of_int n :: 64 word) = n" by (intro sint_word_of_int64)
    with pos Int63n_range [of "word_of_int n" r] obtain v r' where
      "Int63n (word_of_int n) r = Inr (v, r')" "0 \<le> sint v" "sint v < n"
      by auto
    with pos large show ?thesis by (simp add: Intn_def)
  next
    case beyond
    have "sint (fst (Int63 r)) < 2 ^ 63"
      using sint_less [of "fst (Int63 r)"] by simp
    with beyond Int63_nonneg [of r] pos show ?thesis
      by (simp add: Intn_def split_beta)
  qed
qed

lemma Intn_range:
  assumes "0 < n"
  obtains i r' where "Intn n r = Inr (i, r')" "0 \<le> i" "i < n"
  using Intn_range_ex [OF assms] by blast

text \<open>The example generator, evaluated.\<close>

lemma Uint64_fives: "Uint64 (sconst ([], 21474836480)) = (21474836480, sconst ([], 21474836480))"
proof -
  have "unset_bit 62 (21474836480 :: 64 word) = 21474836480" by code_simp
  then show ?thesis by (simp add: Uint64_def)
qed

lemma Int63_fives: "Int63 (sconst ([], 21474836480)) = (21474836480, sconst ([], 21474836480))"
proof -
  have "(21474836480 :: 64 word) AND mask 63 = 21474836480" by code_simp
  then show ?thesis by (simp add: Int63_def Uint64_fives)
qed

lemma Int31_fives: "Int31 (sconst ([], 21474836480)) = (5, sconst ([], 21474836480))"
proof -
  have "(ucast (signed_drop_bit 32 (21474836480 :: 64 word)) :: 32 word) = 5" by code_simp
  then show ?thesis by (simp add: Int31_def Int63_fives)
qed

lemma Uint32_fives: "Uint32 (sconst ([], 21474836480)) = (10, sconst ([], 21474836480))"
proof -
  have "(ucast (signed_drop_bit 31 (21474836480 :: 64 word)) :: 32 word) = 10" by code_simp
  then show ?thesis by (simp add: Uint32_def Int63_fives)
qed

lemma Int31n_accept:
  assumes "Int31 r = (v, r')" and "0 < sint n"
    and "n AND (n - 1) \<noteq> 0" and "sint v \<le> sint (2 ^ 31 - 1 - 2 ^ 31 mod n :: 32 word)"
  shows "Int31n n r = Inr (v mod n, r')"
  using assms by (simp add: Int31n.simps [of n r])

lemma Int31n_mask:
  assumes "Int31 r = (v, r')" and "0 < sint n" and "n AND (n - 1) = 0"
  shows "Int31n n r = Inr (v AND (n - 1), r')"
  using assms by (simp add: Int31n.simps [of n r])

lemma Intn_fives:
  "Intn 2 (sconst ([], 21474836480)) = Inr (1, sconst ([], 21474836480))"
  "Intn 3 (sconst ([], 21474836480)) = Inr (2, sconst ([], 21474836480))"
  "Intn 62 (sconst ([], 21474836480)) = Inr (5, sconst ([], 21474836480))"
proof -
  have two: "0 < sint (2 :: 32 word)" "(2 :: 32 word) AND (2 - 1) = 0"
      "sint ((5 :: 32 word) AND (2 - 1)) = 1"
    by code_simp+
  have three: "0 < sint (3 :: 32 word)" "(3 :: 32 word) AND (3 - 1) \<noteq> 0"
      "sint (5 :: 32 word) \<le> sint (2 ^ 31 - 1 - 2 ^ 31 mod 3 :: 32 word)"
      "sint ((5 :: 32 word) mod 3) = 2"
    by code_simp+
  have many: "0 < sint (62 :: 32 word)" "(62 :: 32 word) AND (62 - 1) \<noteq> 0"
      "sint (5 :: 32 word) \<le> sint (2 ^ 31 - 1 - 2 ^ 31 mod 62 :: 32 word)"
      "sint ((5 :: 32 word) mod 62) = 5"
    by code_simp+
  show "Intn 2 (sconst ([], 21474836480)) = Inr (1, sconst ([], 21474836480))"
    using Int31n_mask [OF Int31_fives two(1,2)] two(3) by (simp add: Intn_def)
  show "Intn 3 (sconst ([], 21474836480)) = Inr (2, sconst ([], 21474836480))"
    using Int31n_accept [OF Int31_fives three(1,2,3)] three(4) by (simp add: Intn_def)
  show "Intn 62 (sconst ([], 21474836480)) = Inr (5, sconst ([], 21474836480))"
    using Int31n_accept [OF Int31_fives many(1,2,3)] many(4) by (simp add: Intn_def)
qed

text \<open>
  Redraws, evaluated: \<^verbatim>\<open>Intn(3)\<close> rejects the 31-bit draw \<open>2^31 - 1\<close>, which lies above
  \<open>max = 2^31 - 3\<close>, and takes the next draw, 5; \<^verbatim>\<open>Float64\<close> rejects the 63-bit draw
  \<open>2^63 - 1\<close>, whose quotient rounds to 1, and takes the next draw, 0.
\<close>

lemma Int31n_redraw:
  assumes "Int31 r = (v, r')" and "0 < sint n"
    and "n AND (n - 1) \<noteq> 0" and "sint (2 ^ 31 - 1 - 2 ^ 31 mod n :: 32 word) < sint v"
  shows "Int31n n r = Int31n n r'"
  using assms by (simp add: Int31n.simps [of n r])

lemma Intn_redraws:
  "Intn 3 (([push_bit 32 (ucast (2147483647 :: 32 word))], 21474836480) ## sconst ([], 0))
     = Inr (2, sconst ([], 0))"
proof -
  have top: "\<not> bit (2147483647 :: 32 word) 31" by code_simp
  have three: "0 < sint (3 :: 32 word)" "(3 :: 32 word) AND (3 - 1) \<noteq> 0"
      "sint (2 ^ 31 - 1 - 2 ^ 31 mod 3 :: 32 word) < sint (2147483647 :: 32 word)"
      "sint (5 :: 32 word) \<le> sint (2 ^ 31 - 1 - 2 ^ 31 mod 3 :: 32 word)"
      "sint ((5 :: 32 word) mod 3) = 2"
    by code_simp+
  have guard: "(ucast (signed_drop_bit 32 (unset_bit 62 (21474836480 :: 64 word) AND mask 63))
      :: 32 word) = 5"
    by code_simp
  then have second: "Int31 (([], 21474836480) ## sconst ([], 0)) = (5, sconst ([], 0))"
    by (simp add: Int31_def Int63_def Uint64_def)
  have "Int31n 3 (([push_bit 32 (ucast (2147483647 :: 32 word))], 21474836480) ## sconst ([], 0))
      = Int31n 3 (([], 21474836480) ## sconst ([], 0))"
    by (rule Int31n_redraw [OF Int31_push [OF top] three(1,2,3)])
  also have "\<dots> = Inr (5 mod 3, sconst ([], 0))"
    by (rule Int31n_accept [OF second three(1,2,4)])
  finally show ?thesis using three(5) by (simp add: Intn_def)
qed

lemma Float64_redraws:
  "Float64 (([9223372036854775807], 0) ## sconst ([], 0)) = (0, sconst ([], 0))"
proof -
  have first: "(9223372036854775807 :: 64 word) AND mask 63 = 9223372036854775807"
      "2 ^ 63 - 512 \<le> sint (9223372036854775807 :: 64 word)"
    by code_simp+
  have guard: "unset_bit 62 (0 :: 64 word) AND mask 63 = 0"
      "\<not> 2 ^ 63 - 512 \<le> sint (0 :: 64 word)"
    by code_simp+
  have "Float64 (([9223372036854775807], 0) ## sconst ([], 0)) = Float64 (([], 0) ## sconst ([], 0))"
    using first by (simp add: Float64.simps [of "([9223372036854775807], 0) ## sconst ([], 0)"]
        Int63_def Uint64_def)
  also have "\<dots> = (0, sconst ([], 0))"
    using guard by (simp add: Float64.simps [of "([], 0) ## sconst ([], 0)"] Int63_def Uint64_def)
  finally show ?thesis .
qed

lemmas example_defs =
  fives_def nodeValue_def nodeNext_def colours_def sampleColours_def sampleIndex_def
  sampleFlag_def sampleCount_def sampleTotal_def sampleChoice_def legacyGroup_def
  legacyFlag_def exampleSchema_def hollow_def

lemmas example_simps =
  newDynamicProtoRand.simps getRandValue.simps populateFields.simps Int31_fives Int63_fives Uint32_fives Intn_fives randInt32_def randInt64_def
  randUint32_def randBool_def chooseEnumValueRandomly_def chooseOneOfFieldRandomly_def
  Get_def notPopulated_def Set_def NewMessage_def MutableList_def MutableMap_def

subsection \<open>Oneof selection\<close>

lemma chooseOneOf_member:
  assumes "OneofFields oneOf \<noteq> []"
  obtains f p' where "chooseOneOfFieldRandomly oneOf p = Inr (f, p')"
    "f \<in> set (OneofFields oneOf)"
proof (cases "length (OneofFields oneOf) \<le> 1")
  case True
  with assms obtain f where fs: "OneofFields oneOf = [f]"
    by (cases "OneofFields oneOf") auto
  then have "chooseOneOfFieldRandomly oneOf p = Inr (f, p)"
    by (simp add: chooseOneOfFieldRandomly_def Get_def)
  with fs that show ?thesis by simp
next
  case False
  from assms have ln: "0 < int (length (OneofFields oneOf))" by simp
  obtain i r' where i: "Intn (int (length (OneofFields oneOf))) (rand p) = Inr (i, r')"
      "0 \<le> i" "i < int (length (OneofFields oneOf))"
    using Intn_range [OF ln] by blast
  then have "chooseOneOfFieldRandomly oneOf p = Inr (OneofFields oneOf ! nat i, p\<lparr>rand := r'\<rparr>)"
    using False by (simp add: chooseOneOfFieldRandomly_def Get_def)
  moreover have "nat i < length (OneofFields oneOf)"
    using i by simp
  then have "OneofFields oneOf ! nat i \<in> set (OneofFields oneOf)"
    by (rule nth_mem)
  ultimately show ?thesis using that by blast
qed

lemma chooseOneOf_empty:
  "OneofFields oneOf = [] \<Longrightarrow>
     chooseOneOfFieldRandomly oneOf p = Inl (Panic ''index out of range'')"
  by (simp add: chooseOneOfFieldRandomly_def Get_def)

lemma selectOneofs_empty_member:
  "oneOf \<in> set oneOfs \<Longrightarrow> OneofFields oneOf = [] \<Longrightarrow>
     selectOneofs oneOfs m p = Inl (Panic ''index out of range'')"
proof (induction oneOfs arbitrary: m p)
  case Nil
  then show ?case by simp
next
  case (Cons a rest)
  show ?case
  proof (cases "OneofFields a = []")
    case True
    then show ?thesis by (simp add: chooseOneOf_empty)
  next
    case False
    then obtain f p' where c: "chooseOneOfFieldRandomly a p = Inr (f, p')"
      using chooseOneOf_member [of a p] by blast
    from False Cons.prems have "oneOf \<in> set rest" by auto
    with Cons.IH Cons.prems(2) c show ?thesis by simp
  qed
qed

subsection \<open>The field loop\<close>

lemma populateFields_Cons:
  "populateFields S d sel (fd # fds) dm p =
     (if notPopulated sel fd then populateFields S d sel fds dm p
      else (case fieldGen S d dm fd p of
              Inl e \<Rightarrow> Inl e
            | Inr (v, p') \<Rightarrow> populateFields S d sel fds (Set dm fd v) p'))"
  by (simp add: populateFields.simps fieldGen_def
      split: Cardinality.splits sum.splits prod.splits)

lemma populateFields_append:
  "populateFields S d sel (before @ rest) dm p =
     (case populateFields S d sel before dm p of
        Inl e \<Rightarrow> Inl e
      | Inr (dm1, p1) \<Rightarrow> populateFields S d sel rest dm1 p1)"
proof (induction before arbitrary: dm p)
  case Nil
  then show ?case by simp
next
  case (Cons a before)
  show ?case
    unfolding append_Cons populateFields_Cons
    by (simp add: Cons.IH split: sum.splits prod.splits)
qed

lemma populateFields_step:
  assumes "populateFields S d sel (fd # fds) dm p = Inr (dm', p')"
  obtains "notPopulated sel fd" "populateFields S d sel fds dm p = Inr (dm', p')"
  | v p1 where "\<not> notPopulated sel fd" "fieldGen S d dm fd p = Inr (v, p1)"
      "populateFields S d sel fds (Set dm fd v) p1 = Inr (dm', p')"
  using assms
  by (auto simp: populateFields_Cons split: if_splits sum.splits)

lemma fieldGen_fresh:
  assumes "fieldGen S d dm fd p = Inr (v, p1)" and "map_of (known dm) (Number fd) = None"
  shows "(Cardinality fd = Repeated \<longrightarrow> (\<exists>x. v = ListVal [x]))
         \<and> (\<forall>keyfd valuefd. Cardinality fd = MapOf keyfd valuefd \<longrightarrow>
              (\<exists>key x. v = MapVal [(key, x)]))"
  using assms
  by (auto simp: fieldGen_def MutableList_def MutableMap_def
      split: Cardinality.splits sum.splits)

lemma map_of_Set: "map_of (known (Set dm fd v)) = (map_of (known dm))(Number fd \<mapsto> v)"
  by (simp add: Set_def update_conv')

lemma populateFields_other:
  "populateFields S d sel fds dm p = Inr (dm', p') \<Longrightarrow> n \<notin> Number ` set fds \<Longrightarrow>
     map_of (known dm') n = map_of (known dm) n"
proof (induction fds arbitrary: dm p)
  case Nil
  then show ?case by simp
next
  case (Cons fd fds)
  from Cons.prems(1) show ?case
  proof (cases rule: populateFields_step)
    case 1
    with Cons show ?thesis by simp
  next
    case (2 v p1)
    with Cons.IH [OF 2(3)] Cons.prems(2) show ?thesis
      by (simp add: map_of_Set)
  qed
qed

lemma populateFields_populated:
  "populateFields S d sel fds dm p = Inr (dm', p') \<Longrightarrow>
     populated dm' n \<longleftrightarrow>
       populated dm n \<or> (\<exists>fd \<in> set fds. Number fd = n \<and> \<not> notPopulated sel fd)"
proof (induction fds arbitrary: dm p)
  case Nil
  then show ?case by simp
next
  case (Cons fd fds)
  from Cons.prems(1) show ?case
  proof (cases rule: populateFields_step)
    case 1
    with Cons.IH [OF 1(2)] show ?thesis by auto
  next
    case (2 v p1)
    with Cons.IH [OF 2(3)] show ?thesis
      by (auto simp: populated_def map_of_Set)
  qed
qed

lemma populateFields_collection:
  assumes "populateFields S d sel fds dm p = Inr (dm', p')"
    and "distinct (map Number fds)" and "fd \<in> set fds" and "\<not> notPopulated sel fd"
    and "map_of (known dm) (Number fd) = None"
  shows "\<exists>v. map_of (known dm') (Number fd) = Some v \<and>
           (Cardinality fd = Repeated \<longrightarrow> (\<exists>x. v = ListVal [x])) \<and>
           (\<forall>keyfd valuefd. Cardinality fd = MapOf keyfd valuefd \<longrightarrow>
              (\<exists>key x. v = MapVal [(key, x)]))"
  using assms
proof (induction fds arbitrary: dm p)
  case Nil
  then show ?case by simp
next
  case (Cons a fds)
  show ?case
  proof (cases "a = fd")
    case True
    from Cons.prems(1) True Cons.prems(4) obtain v p1 where
      v: "fieldGen S d dm fd p = Inr (v, p1)"
        "populateFields S d sel fds (Set dm fd v) p1 = Inr (dm', p')"
      by (cases rule: populateFields_step) auto
    from Cons.prems(2) True have "Number fd \<notin> Number ` set fds" by auto
    from populateFields_other [OF v(2) this]
    have "map_of (known dm') (Number fd) = Some v" by (simp add: map_of_Set)
    with fieldGen_fresh [OF v(1) Cons.prems(5)] show ?thesis by simp
  next
    case False
    with Cons.prems have in_rest: "fd \<in> set fds" and ne: "Number a \<noteq> Number fd"
      and dist: "distinct (map Number fds)"
      by auto
    from Cons.prems(1) show ?thesis
    proof (cases rule: populateFields_step)
      case 1
      from Cons.IH [OF 1(2) dist in_rest Cons.prems(4) Cons.prems(5)] show ?thesis .
    next
      case (2 v p1)
      from ne Cons.prems(5) have "map_of (known (Set dm a v)) (Number fd) = None"
        by (simp add: map_of_Set)
      from Cons.IH [OF 2(3) dist in_rest Cons.prems(4) this] show ?thesis .
    qed
  qed
qed

lemma fieldGen_fresh_value:
  assumes "fieldGen S d dm fd p = Inr (v, p2)" and "map_of (known dm) (Number fd) = None"
  shows "(Cardinality fd = Singular \<longrightarrow> getRandValue S d fd p = Inr (v, p2))
         \<and> (Cardinality fd = Repeated \<longrightarrow>
              (\<exists>x. getRandValue S d fd p = Inr (x, p2) \<and> v = ListVal [x]))
         \<and> (\<forall>keyfd valuefd. Cardinality fd = MapOf keyfd valuefd \<longrightarrow>
              (\<exists>key pk x. getRandValue S d keyfd p = Inr (key, pk)
                 \<and> getRandValue S d valuefd pk = Inr (x, p2) \<and> v = MapVal [(key, x)]))"
  using assms
  by (auto simp: fieldGen_def MutableList_def MutableMap_def
      split: Cardinality.splits sum.splits)

lemma populateFields_field:
  assumes run: "populateFields S d sel (before @ fd # after) dm0 p0 = Inr (dm, p')"
    and dist: "distinct (map Number (before @ fd # after))"
    and fresh: "map_of (known dm0) (Number fd) = None"
  shows "\<exists>dm1 p1. populateFields S d sel before dm0 p0 = Inr (dm1, p1)
    \<and> map_of (known dm1) (Number fd) = None
    \<and> (notPopulated sel fd \<longrightarrow> map_of (known dm) (Number fd) = None)
    \<and> (\<not> notPopulated sel fd \<longrightarrow>
         (\<exists>v p2. fieldGen S d dm1 fd p1 = Inr (v, p2)
            \<and> map_of (known dm) (Number fd) = Some v))"
proof -
  from run obtain dm1 p1 where
    b: "populateFields S d sel before dm0 p0 = Inr (dm1, p1)" and
    r: "populateFields S d sel (fd # after) dm1 p1 = Inr (dm, p')"
    by (auto simp: populateFields_append split: sum.splits)
  from dist have nb: "Number fd \<notin> Number ` set before"
    and na: "Number fd \<notin> Number ` set after"
    by auto
  from populateFields_other [OF b nb] fresh
  have f1: "map_of (known dm1) (Number fd) = None" by simp
  have skip: "map_of (known dm) (Number fd) = None" if "notPopulated sel fd"
  proof -
    from r that have "populateFields S d sel after dm1 p1 = Inr (dm, p')"
      by (simp add: populateFields_Cons)
    from populateFields_other [OF this na] f1 show ?thesis by simp
  qed
  have gen: "\<exists>v p2. fieldGen S d dm1 fd p1 = Inr (v, p2)
      \<and> map_of (known dm) (Number fd) = Some v" if "\<not> notPopulated sel fd"
  proof -
    from r that obtain v p2 where g: "fieldGen S d dm1 fd p1 = Inr (v, p2)"
      and rest: "populateFields S d sel after (Set dm1 fd v) p2 = Inr (dm, p')"
      by (cases rule: populateFields_step) auto
    from populateFields_other [OF rest na]
    have "map_of (known dm) (Number fd) = Some v" by (simp add: map_of_Set)
    with g show ?thesis by blast
  qed
  from b f1 skip gen show ?thesis by blast
qed

lemma getRandValue_nested:
  "Kind fd = MessageKind \<Longrightarrow> getRandValue S d fd p = specNestedMessage S d fd p"
  by (simp add: getRandValue.simps specNestedMessage_def)

lemma newDynamicProtoRand_Inr:
  assumes "newDynamicProtoRand S mds d p = Inr (dm, p')"
  obtains sel p0 where "selectOneofs (Oneofs mds) Map.empty p = Inr (sel, p0)"
    "populateFields S d sel (Fields mds) (NewMessage mds) p0 = Inr (dm, p')"
  using assms by (auto simp: newDynamicProtoRand.simps split: sum.splits)

lemma selectOneofs_other:
  "selectOneofs oneOfs m p = Inr (sel, p') \<Longrightarrow> name \<notin> OneofName ` set oneOfs \<Longrightarrow>
     sel name = m name"
proof (induction oneOfs arbitrary: m p)
  case Nil
  then show ?case by simp
next
  case (Cons a rest)
  from Cons.prems(1) obtain f p1 where
    "selectOneofs rest (m(OneofName a \<mapsto> f)) p1 = Inr (sel, p')"
    by (auto split: sum.splits)
  from Cons.IH [OF this] Cons.prems(2) show ?case by simp
qed

lemma selectOneofs_chosen:
  assumes "selectOneofs oneOfs m p = Inr (sel, p')"
    and "distinct (map OneofName oneOfs)" and "oneOf \<in> set oneOfs"
  shows "\<exists>n \<in> set (OneofFields oneOf). sel (OneofName oneOf) = Some n"
  using assms
proof (induction oneOfs arbitrary: m p)
  case Nil
  then show ?case by simp
next
  case (Cons a rest)
  from Cons.prems(1) obtain f p1 where
    c: "chooseOneOfFieldRandomly a p = Inr (f, p1)"
    and r: "selectOneofs rest (m(OneofName a \<mapsto> f)) p1 = Inr (sel, p')"
    by (auto split: sum.splits)
  show ?case
  proof (cases "oneOf = a")
    case True
    have "OneofFields a \<noteq> []"
      using c by (auto simp: chooseOneOf_empty)
    then obtain f' p2 where "chooseOneOfFieldRandomly a p = Inr (f', p2)"
        "f' \<in> set (OneofFields a)"
      by (rule chooseOneOf_member)
    with c have "f \<in> set (OneofFields a)" by simp
    moreover from Cons.prems(2) have "OneofName a \<notin> OneofName ` set rest" by simp
    from selectOneofs_other [OF r this] have "sel (OneofName a) = Some f" by simp
    ultimately show ?thesis using True by blast
  next
    case False
    with Cons.prems have "oneOf \<in> set rest" "distinct (map OneofName rest)" by auto
    from Cons.IH [OF r this(2) this(1)] show ?thesis .
  qed
qed

lemma selectOneofs_failure:
  "selectOneofs oneOfs m q = Inl e \<Longrightarrow>
     e = Panic ''index out of range'' \<and> (\<exists>group \<in> set oneOfs. OneofFields group = [])"
proof (induction oneOfs arbitrary: m q)
  case Nil
  then show ?case by simp
next
  case (Cons a rest)
  show ?case
  proof (cases "OneofFields a = []")
    case True
    with Cons.prems show ?thesis by (simp add: chooseOneOf_empty)
  next
    case False
    then obtain f q' where "chooseOneOfFieldRandomly a q = Inr (f, q')"
      using chooseOneOf_member [of a q] by blast
    with Cons show ?thesis by simp
  qed
qed

lemma chooseEnum_total: "chooseEnumValueRandomly values p \<noteq> Inl e"
proof (cases "2 \<le> length values")
  case True
  then have pos: "0 < int (length values) - 1" by simp
  obtain i r' where i: "Intn (int (length values) - 1) (rand p) = Inr (i, r')"
      "0 \<le> i" "i < int (length values) - 1"
    using Intn_range [OF pos] by blast
  with True show ?thesis by (simp add: chooseEnumValueRandomly_def Get_def)
next
  case False
  then show ?thesis by (simp add: chooseEnumValueRandomly_def)
qed

lemma randRunes_total: "randRunes n p \<noteq> Inl e"
proof (induction n arbitrary: p e)
  case 0
  then show ?case by simp
next
  case (Suc n)
  have pos: "0 < int (length Chars)" by (simp add: Chars_def)
  obtain i r' where i: "Intn (int (length Chars)) (rand p) = Inr (i, r')"
      "0 \<le> i" "i < int (length Chars)"
    using Intn_range [OF pos] by blast
  with Suc.IH [of "p\<lparr>rand := r'\<rparr>"] show ?case
    by (auto simp: Get_def split: sum.splits)
qed

lemma randString_total: "randString p \<noteq> Inl e"
  by (simp add: randString_def randRunes_total)

lemma dispatch_fails_iff:
  "getRandValue S d fd p = Inl e \<longleftrightarrow>
     (Kind fd \<notin> set dispatchKinds \<and> e = UnexpectedType (Kind fd))
     \<or> (Kind fd = MessageKind \<and> 0 < d \<and>
         newDynamicProtoRand S (S (MessageName fd)) (d - 1) p = Inl e)
     \<or> (Kind fd = EnumKind \<and> chooseEnumValueRandomly (EnumValues fd) p = Inl e)
     \<or> (Kind fd \<in> {StringKind, BytesKind} \<and> randString p = Inl e)"
  by (cases "Kind fd")
    (auto simp: getRandValue.simps dispatchKinds_def split_beta randBytes_def
       split: sum.splits)

lemma getRandValue_fails_iff:
  "getRandValue S d fd p = Inl e \<longleftrightarrow>
     (Kind fd \<notin> set dispatchKinds \<and> e = UnexpectedType (Kind fd))
     \<or> (Kind fd = MessageKind \<and> 0 < d \<and>
         newDynamicProtoRand S (S (MessageName fd)) (d - 1) p = Inl e)"
  using dispatch_fails_iff [of S d fd p e] chooseEnum_total randString_total
  by auto

lemma reaches_unsupported_fails:
  shows "reachesMessage S mds d p fd' \<Longrightarrow> Kind fd' \<notin> set dispatchKinds \<Longrightarrow>
           newDynamicProtoRand S mds d p = Inl (UnexpectedType (Kind fd'))"
    and "reachesField S d dm fd p fd' \<Longrightarrow> Kind fd' \<notin> set dispatchKinds \<Longrightarrow>
           fieldGen S d dm fd p = Inl (UnexpectedType (Kind fd'))"
    and "reachesValue S d fd p fd' \<Longrightarrow> Kind fd' \<notin> set dispatchKinds \<Longrightarrow>
           getRandValue S d fd p = Inl (UnexpectedType (Kind fd'))"
proof (induction rule: reachesMessage_reachesField_reachesValue.inducts)
  case (dispatched S d fd p)
  then show ?case by (simp add: getRandValue_fails_iff)
next
  case (nested fd d S p fd')
  then show ?case by (simp add: getRandValue_fails_iff)
next
  case (singular fd S d p fd' dm)
  then show ?case by (simp add: fieldGen_def)
next
  case (element fd dm list S d p fd')
  then show ?case by (simp add: fieldGen_def)
next
  case (map_key fd keyfd valuefd dm mp S d p fd')
  then show ?case by (simp add: fieldGen_def)
next
  case (map_value fd keyfd valuefd dm mp S d p key p' fd')
  then show ?case by (simp add: fieldGen_def)
next
  case (field mds p sel p0 before fd after S d dm p1 fd')
  then show ?case
    by (simp add: newDynamicProtoRand.simps populateFields_append populateFields_Cons)
qed

lemma fieldGen_fails:
  assumes H: "\<And>fd p. getRandValue S d fd p = Inl (UnexpectedType k) \<Longrightarrow>
      \<exists>fd'. reachesValue S d fd p fd' \<and> Kind fd' \<notin> set dispatchKinds \<and> k = Kind fd'"
    and "fieldGen S d dm fd p = Inl (UnexpectedType k)"
  shows "\<exists>fd'. reachesField S d dm fd p fd' \<and> Kind fd' \<notin> set dispatchKinds \<and> k = Kind fd'"
proof (cases "Cardinality fd")
  case Singular
  with assms(2) have "getRandValue S d fd p = Inl (UnexpectedType k)"
    by (simp add: fieldGen_def)
  from H [OF this] Singular show ?thesis
    by (blast intro: reachesMessage_reachesField_reachesValue.singular)
next
  case Repeated
  with assms(2) obtain list where "MutableList dm fd = Inr list"
      "getRandValue S d fd p = Inl (UnexpectedType k)"
    by (auto simp: fieldGen_def MutableList_def split: sum.splits option.splits Value.splits)
  from H [OF this(2)] this(1) Repeated show ?thesis
    by (blast intro: reachesMessage_reachesField_reachesValue.element)
next
  case (MapOf keyfd valuefd)
  with assms(2) obtain mp where mp: "MutableMap dm fd = Inr mp"
    by (auto simp: fieldGen_def MutableMap_def split: sum.splits option.splits Value.splits)
  show ?thesis
  proof (cases "getRandValue S d keyfd p")
    case (Inl e)
    with assms(2) MapOf mp have "getRandValue S d keyfd p = Inl (UnexpectedType k)"
      by (simp add: fieldGen_def)
    from H [OF this] mp MapOf show ?thesis
      by (blast intro: reachesMessage_reachesField_reachesValue.map_key)
  next
    case (Inr r)
    obtain key p' where r: "r = (key, p')" by (cases r)
    with Inr assms(2) MapOf mp have "getRandValue S d valuefd p' = Inl (UnexpectedType k)"
      by (simp add: fieldGen_def split: sum.splits prod.splits)
    from H [OF this] mp MapOf Inr r show ?thesis
      by (blast intro: reachesMessage_reachesField_reachesValue.map_value)
  qed
qed

lemma populateFields_fails:
  assumes H: "\<And>fd p. getRandValue S d fd p = Inl (UnexpectedType k) \<Longrightarrow>
      \<exists>fd'. reachesValue S d fd p fd' \<and> Kind fd' \<notin> set dispatchKinds \<and> k = Kind fd'"
  shows "populateFields S d sel fds dm p = Inl (UnexpectedType k) \<Longrightarrow>
    \<exists>before fd after dm1 p1 fd'. fds = before @ fd # after
       \<and> populateFields S d sel before dm p = Inr (dm1, p1)
       \<and> \<not> notPopulated sel fd
       \<and> reachesField S d dm1 fd p1 fd' \<and> Kind fd' \<notin> set dispatchKinds \<and> k = Kind fd'"
proof (induction fds arbitrary: dm p)
  case Nil
  then show ?case by simp
next
  case (Cons a fds)
  let ?goal = "\<exists>before fd after dm1 p1 fd'. a # fds = before @ fd # after
       \<and> populateFields S d sel before dm p = Inr (dm1, p1)
       \<and> \<not> notPopulated sel fd
       \<and> reachesField S d dm1 fd p1 fd' \<and> Kind fd' \<notin> set dispatchKinds \<and> k = Kind fd'"
  have later: ?goal
    if rest: "populateFields S d sel fds dm2 p2 = Inl (UnexpectedType k)"
      and head: "populateFields S d sel [a] dm p = Inr (dm2, p2)" for dm2 p2
  proof -
    from Cons.IH [OF rest] obtain before fd after dm1 p1 fd' where
      x: "fds = before @ fd # after" "populateFields S d sel before dm2 p2 = Inr (dm1, p1)"
        "\<not> notPopulated sel fd" "reachesField S d dm1 fd p1 fd'"
        "Kind fd' \<notin> set dispatchKinds" "k = Kind fd'"
      by blast
    have "populateFields S d sel (a # before) dm p = Inr (dm1, p1)"
      using populateFields_append [of S d sel "[a]" before dm p] head x(2) by simp
    moreover have "a # fds = (a # before) @ fd # after" using x(1) by simp
    ultimately show ?thesis using x(3-6) by blast
  qed
  show ?case
  proof (cases "notPopulated sel a")
    case True
    with Cons.prems have "populateFields S d sel fds dm p = Inl (UnexpectedType k)"
      by (simp add: populateFields_Cons)
    moreover from True have "populateFields S d sel [a] dm p = Inr (dm, p)"
      by (simp add: populateFields_Cons)
    ultimately show ?thesis by (rule later)
  next
    case False
    show ?thesis
    proof (cases "fieldGen S d dm a p")
      case (Inl e)
      with Cons.prems False have "fieldGen S d dm a p = Inl (UnexpectedType k)"
        by (simp add: populateFields_Cons)
      from fieldGen_fails [OF H this] obtain fd' where
        "reachesField S d dm a p fd'" "Kind fd' \<notin> set dispatchKinds" "k = Kind fd'"
        by blast
      moreover have "a # fds = [] @ a # fds" "populateFields S d sel [] dm p = Inr (dm, p)"
        by simp_all
      ultimately show ?thesis using False by blast
    next
      case (Inr r)
      obtain v p2 where r: "r = (v, p2)" by (cases r)
      with Inr Cons.prems False
      have "populateFields S d sel fds (Set dm a v) p2 = Inl (UnexpectedType k)"
        by (simp add: populateFields_Cons)
      moreover from Inr r False have "populateFields S d sel [a] dm p = Inr (Set dm a v, p2)"
        by (simp add: populateFields_Cons)
      ultimately show ?thesis by (rule later)
    qed
  qed
qed

lemma newDynamicProtoRand_fails:
  assumes H: "\<And>fd p. getRandValue S d fd p = Inl (UnexpectedType k) \<Longrightarrow>
      \<exists>fd'. reachesValue S d fd p fd' \<and> Kind fd' \<notin> set dispatchKinds \<and> k = Kind fd'"
    and "newDynamicProtoRand S mds d p = Inl (UnexpectedType k)"
  shows "\<exists>fd'. reachesMessage S mds d p fd' \<and> Kind fd' \<notin> set dispatchKinds \<and> k = Kind fd'"
proof (cases "selectOneofs (Oneofs mds) Map.empty p")
  case (Inl e)
  with selectOneofs_failure [OF Inl] assms(2) show ?thesis
    by (simp add: newDynamicProtoRand.simps)
next
  case (Inr r)
  obtain sel p0 where r: "r = (sel, p0)" by (cases r)
  with Inr assms(2)
  have "populateFields S d sel (Fields mds) (NewMessage mds) p0 = Inl (UnexpectedType k)"
    by (simp add: newDynamicProtoRand.simps)
  from populateFields_fails [OF H this] Inr r show ?thesis
    by (blast intro: reachesMessage_reachesField_reachesValue.field)
qed

lemma getRandValue_fails:
  "getRandValue S d fd p = Inl (UnexpectedType k) \<Longrightarrow>
     \<exists>fd'. reachesValue S d fd p fd' \<and> Kind fd' \<notin> set dispatchKinds \<and> k = Kind fd'"
proof (induction "nat d" arbitrary: d fd p rule: less_induct)
  case less
  from less.prems consider
    (here) "Kind fd \<notin> set dispatchKinds" "k = Kind fd"
    | (deeper) "Kind fd = MessageKind" "0 < d"
        "newDynamicProtoRand S (S (MessageName fd)) (d - 1) p = Inl (UnexpectedType k)"
    by (auto simp: getRandValue_fails_iff)
  then show ?case
  proof cases
    case here
    then show ?thesis
      by (blast intro: reachesMessage_reachesField_reachesValue.dispatched)
  next
    case deeper
    have "nat (d - 1) < nat d" using deeper(2) by simp
    from less.hyps [OF this]
    have H: "\<And>fd p. getRandValue S (d - 1) fd p = Inl (UnexpectedType k) \<Longrightarrow>
      \<exists>fd'. reachesValue S (d - 1) fd p fd' \<and> Kind fd' \<notin> set dispatchKinds \<and> k = Kind fd'"
      by blast
    from newDynamicProtoRand_fails [OF H deeper(3)] deeper(1,2) show ?thesis
      by (blast intro: reachesMessage_reachesField_reachesValue.nested)
  qed
qed

lemma fieldGen_no_panic:
  assumes H: "\<And>fd p. getRandValue S d fd p \<noteq> Inl (Panic s)"
    and "map_of (known dm) (Number fd) = None"
  shows "fieldGen S d dm fd p \<noteq> Inl (Panic s)"
  using assms(2) H
  by (auto simp: fieldGen_def MutableList_def MutableMap_def
      split: Cardinality.splits sum.splits)

lemma populateFields_no_panic:
  assumes H: "\<And>fd p. getRandValue S d fd p \<noteq> Inl (Panic s)"
  shows "distinct (map Number fds) \<Longrightarrow>
    \<forall>f \<in> set fds. map_of (known dm) (Number f) = None \<Longrightarrow>
    populateFields S d sel fds dm p \<noteq> Inl (Panic s)"
proof (induction fds arbitrary: dm p)
  case Nil
  then show ?case by simp
next
  case (Cons a fds)
  have fresh: "map_of (known dm) (Number a) = None"
    using Cons.prems(2) by simp
  have rest: "populateFields S d sel fds dm p \<noteq> Inl (Panic s)"
    using Cons.IH [of dm p] Cons.prems by simp
  have after: "populateFields S d sel fds (Set dm a v) p1 \<noteq> Inl (Panic s)" for v p1
  proof -
    have "Number f \<noteq> Number a" if "f \<in> set fds" for f
      using that Cons.prems(1) by (auto simp: image_iff)
    then have "\<forall>f \<in> set fds. map_of (known (Set dm a v)) (Number f) = None"
      using Cons.prems(2) by (simp add: map_of_Set)
    with Cons.IH [of "Set dm a v" p1] Cons.prems(1) show ?thesis by simp
  qed
  from rest after fieldGen_no_panic [OF H fresh, of p] show ?case
    by (auto simp: populateFields_Cons split: sum.splits)
qed

lemma newDynamicProtoRand_no_panic:
  assumes H: "\<And>fd p. getRandValue S d fd p \<noteq> Inl (Panic s)"
    and wf: "wellFormed mds"
  shows "newDynamicProtoRand S mds d p \<noteq> Inl (Panic s)"
proof (cases "selectOneofs (Oneofs mds) Map.empty p")
  case (Inl e)
  from selectOneofs_failure [OF Inl] wf show ?thesis
    by (auto simp: wellFormed_def list_all_iff)
next
  case (Inr r)
  obtain sel p0 where r: "r = (sel, p0)" by (cases r)
  have "populateFields S d sel (Fields mds) (NewMessage mds) p0 \<noteq> Inl (Panic s)"
    using wf by (intro populateFields_no_panic H) (simp_all add: wellFormed_def NewMessage_def)
  with Inr r show ?thesis by (simp add: newDynamicProtoRand.simps)
qed

lemma getRandValue_no_panic:
  assumes "\<And>name. wellFormed (S name)"
  shows "getRandValue S d fd p \<noteq> Inl (Panic s)"
proof (induction "nat d" arbitrary: d fd p rule: less_induct)
  case less
  show ?case
  proof
    assume "getRandValue S d fd p = Inl (Panic s)"
    then have deeper: "0 < d"
        "newDynamicProtoRand S (S (MessageName fd)) (d - 1) p = Inl (Panic s)"
      by (auto simp: getRandValue_fails_iff)
    have "nat (d - 1) < nat d" using deeper(1) by simp
    from less.hyps [OF this]
    have "newDynamicProtoRand S (S (MessageName fd)) (d - 1) p \<noteq> Inl (Panic s)"
      by (intro newDynamicProtoRand_no_panic assms)
    with deeper(2) show False by simp
  qed
qed

subsection \<open>The self-referential example\<close>

lemma node_fields:
  "Fields (exampleSchema ''Node'') = [nodeValue, nodeNext]"
  "Oneofs (exampleSchema ''Node'') = []"
  "NewMessage (exampleSchema ''Node'') = Message ''Node'' []"
  "Number nodeValue = 1" "Cardinality nodeValue = Singular" "ContainingOneof nodeValue = None"
  "Number nodeNext = 2" "Cardinality nodeNext = Singular" "ContainingOneof nodeNext = None"
  by (simp_all add: exampleSchema_def NewMessage_def nodeValue_def nodeNext_def)

lemma node_value: "getRandValue S d nodeValue fives = Inr (Int32Val 5, fives)"
  by (simp add: getRandValue.simps nodeValue_def randInt32_def fives_def Int31_fives)

lemma node_next:
  "getRandValue exampleSchema d nodeNext p =
     (if 0 < d then
        (case newDynamicProtoRand exampleSchema (exampleSchema ''Node'') (d - 1) p of
           Inl e \<Rightarrow> Inl e
         | Inr (rm, p') \<Rightarrow> Inr (MessageVal rm, p'))
      else Inr (MessageVal (Message ''Node'' []), p))"
  by (simp add: getRandValue.simps nodeNext_def NewMessage_def exampleSchema_def)

lemma node_step:
  "newDynamicProtoRand exampleSchema (exampleSchema ''Node'') d fives =
     (case getRandValue exampleSchema d nodeNext fives of
        Inl e \<Rightarrow> Inl e
      | Inr (v, p') \<Rightarrow> Inr (Message ''Node'' [(1, Int32Val 5), (2, v)], p'))"
  by (simp add: newDynamicProtoRand.simps node_fields populateFields.simps notPopulated_def
      node_value Set_def split: sum.splits prod.splits)

lemma node_chain:
  "newDynamicProtoRand exampleSchema (exampleSchema ''Node'') (int n) fives =
     Inr (nodeChain n, fives)"
proof (induction n)
  case 0
  show ?case
    by (simp add: node_step node_next)
next
  case (Suc n)
  have "getRandValue exampleSchema (int (Suc n)) nodeNext fives =
      Inr (MessageVal (nodeChain n), fives)"
    using Suc.IH by (simp add: node_next)
  then show ?case
    by (simp add: node_step)
qed

lemma node_head:
  "populateFields exampleSchema d sel [nodeValue] (NewMessage (exampleSchema ''Node'')) fives =
     Inr (Message ''Node'' [(1, Int32Val 5)], fives)"
  by (simp add: populateFields.simps node_fields notPopulated_def node_value Set_def)

subsection \<open>The example with nested messages in a list and in a map\<close>

lemmas tree_defs = tree_def treeChildren_def treeIndex_def treeIndexKey_def treeIndexValue_def

lemma tree_fields:
  "Fields tree = [treeChildren, treeIndex]" "Oneofs tree = []"
  "NewMessage tree = Message ''Tree'' []"
  "Number treeChildren = 1" "Cardinality treeChildren = Repeated"
  "ContainingOneof treeChildren = None" "Kind treeChildren = MessageKind"
  "MessageName treeChildren = ''Tree''"
  "Number treeIndex = 2" "Cardinality treeIndex = MapOf treeIndexKey treeIndexValue"
  "ContainingOneof treeIndex = None"
  "Kind treeIndexValue = MessageKind" "MessageName treeIndexValue = ''Tree''"
  by (simp_all add: tree_defs NewMessage_def)

lemma tree_key: "getRandValue S d treeIndexKey fives = Inr (Int32Val 5, fives)"
  by (simp add: getRandValue.simps treeIndexKey_def randInt32_def fives_def Int31_fives)

lemma tree_step:
  assumes "getRandValue S d treeChildren fives = Inr (v, fives)"
    and "getRandValue S d treeIndexValue fives = Inr (w, fives)"
  shows "newDynamicProtoRand S tree d fives =
     Inr (Message ''Tree'' [(1, ListVal [v]), (2, MapVal [(Int32Val 5, w)])], fives)"
  using assms
  by (simp add: newDynamicProtoRand.simps tree_fields populateFields.simps notPopulated_def
      tree_key Set_def MutableList_def MutableMap_def)

lemma tree_chain:
  "newDynamicProtoRand (\<lambda>name. tree) tree (int n) fives = Inr (treeOf n, fives)"
proof (induction n)
  case 0
  show ?case
    by (simp add: tree_step getRandValue.simps tree_fields)
next
  case (Suc n)
  then have "getRandValue (\<lambda>name. tree) (int (Suc n)) treeChildren fives =
        Inr (MessageVal (treeOf n), fives)"
      "getRandValue (\<lambda>name. tree) (int (Suc n)) treeIndexValue fives =
        Inr (MessageVal (treeOf n), fives)"
    by (simp_all add: getRandValue.simps tree_fields)
  then show ?case
    by (simp add: tree_step)
qed

lemma tree_one:
  "newDynamicProtoRand (\<lambda>name. tree) tree 0 fives = Inr (treeOf 0, fives)"
  "newDynamicProtoRand (\<lambda>name. tree) tree 1 fives = Inr (treeOf 1, fives)"
  using tree_chain [of 0] tree_chain [of 1] by simp_all

lemma tree_head:
  "populateFields (\<lambda>name. tree) 1 sel [treeChildren] (NewMessage tree) fives =
     Inr (Message ''Tree'' [(1, ListVal [MessageVal (treeOf 0)])], fives)"
  by (simp add: tree_defs fives_def example_simps)

subsection \<open>The properties of the specification\<close>

text \<open>
  C1. A field of message kind: with a depth budget above 0 the generator recurses into
  the field's message type with the budget less 1, and wraps the result; with the budget
  0 (or below) it assigns \<^verbatim>\<open>dynamicpb.NewMessage\<close> of the type, which has no field
  populated, and draws nothing. The field loop applies this with the budget that its own
  call received to every nested message it meets: in a generated message of a
  descriptor with distinct field numbers, a populated field of message kind holds the
  value that the rule gives at the point where the loop arrives at the field (after the
  oneofs have been chosen and the fields before it generated), as the field itself, as
  the one element of its list, or as the key or the value of the one entry of its map;
  a field passed over for its oneof holds nothing. \<^verbatim>\<open>NewDynamicProtoRand\<close> and \<^verbatim>\<open>Gen\<close>
  start with the budget \<^verbatim>\<open>MaxDepth\<close>, 16; \<^verbatim>\<open>Gen\<close> returns the generated fields in a
  message of the input's type, and panics on an input that is a \<^verbatim>\<open>*dynamicpb.Message\<close>.
\<close>

theorem nested_message_depth_budget:
  "(Kind fd = MessageKind \<and> 0 < allowedDepth \<longrightarrow>
      getRandValue S allowedDepth fd p =
        (case newDynamicProtoRand S (S (MessageName fd)) (allowedDepth - 1) p of
           Inl err \<Rightarrow> Inl err
         | Inr (rm, q) \<Rightarrow> Inr (MessageVal rm, q)))
   \<and> (Kind fd = MessageKind \<and> allowedDepth \<le> 0 \<longrightarrow>
        getRandValue S allowedDepth fd p = Inr (MessageVal (NewMessage (S (MessageName fd))), p)
        \<and> known (NewMessage (S (MessageName fd))) = []
        \<and> (\<forall>n. \<not> populated (NewMessage (S (MessageName fd))) n))
   \<and> (newDynamicProtoRand S mds allowedDepth p = Inr (dm, p')
        \<and> distinct (map Number (Fields mds)) \<and> Fields mds = before @ fd # after \<longrightarrow>
        (\<exists>sel p0 dm1 p1.
            selectOneofs (Oneofs mds) Map.empty p = Inr (sel, p0)
          \<and> populateFields S allowedDepth sel before (NewMessage mds) p0 = Inr (dm1, p1)
          \<and> (notPopulated sel fd \<longrightarrow> map_of (known dm) (Number fd) = None)
          \<and> (\<not> notPopulated sel fd \<and> Kind fd = MessageKind \<and> Cardinality fd = Singular \<longrightarrow>
               (\<exists>v p2. specNestedMessage S allowedDepth fd p1 = Inr (v, p2)
                  \<and> map_of (known dm) (Number fd) = Some v))
          \<and> (\<not> notPopulated sel fd \<and> Kind fd = MessageKind \<and> Cardinality fd = Repeated \<longrightarrow>
               (\<exists>v p2. specNestedMessage S allowedDepth fd p1 = Inr (v, p2)
                  \<and> map_of (known dm) (Number fd) = Some (ListVal [v])))
          \<and> (\<forall>keyfd valuefd.
               \<not> notPopulated sel fd \<and> Cardinality fd = MapOf keyfd valuefd \<longrightarrow>
               (\<exists>key pk v p2.
                   getRandValue S allowedDepth keyfd p1 = Inr (key, pk)
                 \<and> getRandValue S allowedDepth valuefd pk = Inr (v, p2)
                 \<and> (Kind keyfd = MessageKind \<longrightarrow>
                      specNestedMessage S allowedDepth keyfd p1 = Inr (key, pk))
                 \<and> (Kind valuefd = MessageKind \<longrightarrow>
                      specNestedMessage S allowedDepth valuefd pk = Inr (v, p2))
                 \<and> map_of (known dm) (Number fd) = Some (MapVal [(key, v)])))))
   \<and> MaxDepth = 16
   \<and> NewDynamicProtoRand S mds p = newDynamicProtoRand S mds 16 p
   \<and> Gen S inp p =
        (case newDynamicProtoRand S (S (Descriptor (ProtoReflect inp))) 16 p of
           Inl err \<Rightarrow> Inl err
         | Inr (gm, q) \<Rightarrow>
             (case inp of
                GeneratedMessage m \<Rightarrow>
                  Inr (GeneratedMessage (Message (Descriptor m) (known gm)), q)
              | DynamicMessage m \<Rightarrow>
                  Inl (Panic ''invalid memory address or nil pointer dereference'')))"
proof -
  have dispatch: "Kind fd = MessageKind \<and> 0 < allowedDepth \<longrightarrow>
      getRandValue S allowedDepth fd p =
        (case newDynamicProtoRand S (S (MessageName fd)) (allowedDepth - 1) p of
           Inl err \<Rightarrow> Inl err
         | Inr (rm, q) \<Rightarrow> Inr (MessageVal rm, q))"
    by (simp add: getRandValue.simps)
  have spent: "Kind fd = MessageKind \<and> allowedDepth \<le> 0 \<longrightarrow>
        getRandValue S allowedDepth fd p = Inr (MessageVal (NewMessage (S (MessageName fd))), p)
        \<and> known (NewMessage (S (MessageName fd))) = []
        \<and> (\<forall>n. \<not> populated (NewMessage (S (MessageName fd))) n)"
    by (simp add: getRandValue.simps NewMessage_def populated_def)
  have loop: "\<exists>sel p0 dm1 p1.
            selectOneofs (Oneofs mds) Map.empty p = Inr (sel, p0)
          \<and> populateFields S allowedDepth sel before (NewMessage mds) p0 = Inr (dm1, p1)
          \<and> (notPopulated sel fd \<longrightarrow> map_of (known dm) (Number fd) = None)
          \<and> (\<not> notPopulated sel fd \<and> Kind fd = MessageKind \<and> Cardinality fd = Singular \<longrightarrow>
               (\<exists>v p2. specNestedMessage S allowedDepth fd p1 = Inr (v, p2)
                  \<and> map_of (known dm) (Number fd) = Some v))
          \<and> (\<not> notPopulated sel fd \<and> Kind fd = MessageKind \<and> Cardinality fd = Repeated \<longrightarrow>
               (\<exists>v p2. specNestedMessage S allowedDepth fd p1 = Inr (v, p2)
                  \<and> map_of (known dm) (Number fd) = Some (ListVal [v])))
          \<and> (\<forall>keyfd valuefd.
               \<not> notPopulated sel fd \<and> Cardinality fd = MapOf keyfd valuefd \<longrightarrow>
               (\<exists>key pk v p2.
                   getRandValue S allowedDepth keyfd p1 = Inr (key, pk)
                 \<and> getRandValue S allowedDepth valuefd pk = Inr (v, p2)
                 \<and> (Kind keyfd = MessageKind \<longrightarrow>
                      specNestedMessage S allowedDepth keyfd p1 = Inr (key, pk))
                 \<and> (Kind valuefd = MessageKind \<longrightarrow>
                      specNestedMessage S allowedDepth valuefd pk = Inr (v, p2))
                 \<and> map_of (known dm) (Number fd) = Some (MapVal [(key, v)])))"
    if gen: "newDynamicProtoRand S mds allowedDepth p = Inr (dm, p')"
      and dist: "distinct (map Number (Fields mds))"
      and split: "Fields mds = before @ fd # after"
  proof -
    from gen obtain sel p0 where
      so: "selectOneofs (Oneofs mds) Map.empty p = Inr (sel, p0)" and
      pf: "populateFields S allowedDepth sel (Fields mds) (NewMessage mds) p0 = Inr (dm, p')"
      by (rule newDynamicProtoRand_Inr)
    have fresh: "map_of (known (NewMessage mds)) (Number fd) = None"
      by (simp add: NewMessage_def)
    from pf dist have
      pf': "populateFields S allowedDepth sel (before @ fd # after) (NewMessage mds) p0 =
        Inr (dm, p')" and
      dist': "distinct (map Number (before @ fd # after))"
      by (simp_all add: split)
    from populateFields_field [OF pf' dist' fresh]
    obtain dm1 p1 where
      b: "populateFields S allowedDepth sel before (NewMessage mds) p0 = Inr (dm1, p1)" and
      f1: "map_of (known dm1) (Number fd) = None" and
      skip: "notPopulated sel fd \<Longrightarrow> map_of (known dm) (Number fd) = None" and
      val: "\<not> notPopulated sel fd \<Longrightarrow>
         \<exists>v p2. fieldGen S allowedDepth dm1 fd p1 = Inr (v, p2)
           \<and> map_of (known dm) (Number fd) = Some v"
      by blast
    have one: "\<exists>v p2. specNestedMessage S allowedDepth fd p1 = Inr (v, p2)
        \<and> map_of (known dm) (Number fd) = Some v"
      if "\<not> notPopulated sel fd" "Kind fd = MessageKind" "Cardinality fd = Singular"
    proof -
      from val [OF that(1)] obtain v p2 where
        g: "fieldGen S allowedDepth dm1 fd p1 = Inr (v, p2)"
        and k: "map_of (known dm) (Number fd) = Some v"
        by blast
      from fieldGen_fresh_value [OF g f1] that(3)
      have "getRandValue S allowedDepth fd p1 = Inr (v, p2)" by simp
      with getRandValue_nested [OF that(2)] k show ?thesis by simp
    qed
    have many: "\<exists>v p2. specNestedMessage S allowedDepth fd p1 = Inr (v, p2)
        \<and> map_of (known dm) (Number fd) = Some (ListVal [v])"
      if "\<not> notPopulated sel fd" "Kind fd = MessageKind" "Cardinality fd = Repeated"
    proof -
      from val [OF that(1)] obtain v p2 where
        g: "fieldGen S allowedDepth dm1 fd p1 = Inr (v, p2)"
        and k: "map_of (known dm) (Number fd) = Some v"
        by blast
      from fieldGen_fresh_value [OF g f1] that(3) obtain x where
        "getRandValue S allowedDepth fd p1 = Inr (x, p2)" "v = ListVal [x]"
        by auto
      with getRandValue_nested [OF that(2)] k show ?thesis by simp
    qed
    have entry: "\<exists>key pk v p2.
          getRandValue S allowedDepth keyfd p1 = Inr (key, pk)
        \<and> getRandValue S allowedDepth valuefd pk = Inr (v, p2)
        \<and> (Kind keyfd = MessageKind \<longrightarrow>
             specNestedMessage S allowedDepth keyfd p1 = Inr (key, pk))
        \<and> (Kind valuefd = MessageKind \<longrightarrow>
             specNestedMessage S allowedDepth valuefd pk = Inr (v, p2))
        \<and> map_of (known dm) (Number fd) = Some (MapVal [(key, v)])"
      if "\<not> notPopulated sel fd" "Cardinality fd = MapOf keyfd valuefd" for keyfd valuefd
    proof -
      from val [OF that(1)] obtain v p2 where
        g: "fieldGen S allowedDepth dm1 fd p1 = Inr (v, p2)"
        and k: "map_of (known dm) (Number fd) = Some v"
        by blast
      from fieldGen_fresh_value [OF g f1] that(2) obtain key pk x where
        "getRandValue S allowedDepth keyfd p1 = Inr (key, pk)"
        "getRandValue S allowedDepth valuefd pk = Inr (x, p2)" "v = MapVal [(key, x)]"
        by auto
      with k getRandValue_nested [of keyfd S allowedDepth p1]
        getRandValue_nested [of valuefd S allowedDepth pk]
      show ?thesis by auto
    qed
    from so b skip one many entry show ?thesis by blast
  qed
  have start: "MaxDepth = 16" "NewDynamicProtoRand S mds p = newDynamicProtoRand S mds 16 p"
    by (simp_all add: NewDynamicProtoRand_def MaxDepth_def)
  have "Gen S inp p =
        (case newDynamicProtoRand S (S (Descriptor (ProtoReflect inp))) 16 p of
           Inl err \<Rightarrow> Inl err
         | Inr (gm, q) \<Rightarrow>
             (case inp of
                GeneratedMessage m \<Rightarrow>
                  Inr (GeneratedMessage (Message (Descriptor m) (known gm)), q)
              | DynamicMessage m \<Rightarrow>
                  Inl (Panic ''invalid memory address or nil pointer dereference'')))"
    by (simp add: Gen_def NewDynamicProtoRand_def MaxDepth_def)
  with dispatch spent loop start show ?thesis by blast
qed

theorem nested_message_depth_budget_witness:
  "Kind nodeNext = MessageKind \<and> (0::int) < 1
   \<and> getRandValue exampleSchema 1 nodeNext fives = Inr (MessageVal (nodeChain 0), fives)
   \<and> getRandValue exampleSchema 0 nodeNext fives = Inr (MessageVal (Message ''Node'' []), fives)
   \<and> NewDynamicProtoRand exampleSchema (exampleSchema ''Node'') fives =
       Inr (nodeChain 16, fives)
   \<and> newDynamicProtoRand (\<lambda>name. tree) tree 1 fives = Inr (treeOf 1, fives)
   \<and> distinct (map Number (Fields tree))
   \<and> Fields tree = [] @ treeChildren # [treeIndex]
   \<and> Kind treeChildren = MessageKind \<and> Cardinality treeChildren = Repeated
   \<and> (\<exists>v p2. specNestedMessage (\<lambda>name. tree) 1 treeChildren fives = Inr (v, p2)
         \<and> map_of (known (treeOf 1)) (Number treeChildren) = Some (ListVal [v]))
   \<and> specNestedMessage (\<lambda>name. tree) 1 treeChildren fives = Inr (MessageVal (treeOf 0), fives)
   \<and> map_of (known (treeOf 1)) 1 = Some (ListVal [MessageVal (treeOf 0)])
   \<and> map_of (known (treeOf 1)) 2 = Some (MapVal [(Int32Val 5, MessageVal (treeOf 0))])
   \<and> map_of (known (treeOf 0)) 1 = Some (ListVal [MessageVal (Message ''Tree'' [])])
   \<and> map_of (known (treeOf 0)) 2 = Some (MapVal [(Int32Val 5, MessageVal (Message ''Tree'' []))])
   \<and> Fields tree = [treeChildren] @ treeIndex # []
   \<and> Cardinality treeIndex = MapOf treeIndexKey treeIndexValue
   \<and> Kind treeIndexValue = MessageKind
   \<and> (\<exists>key pk v p2.
           getRandValue (\<lambda>name. tree) 1 treeIndexKey fives = Inr (key, pk)
         \<and> specNestedMessage (\<lambda>name. tree) 1 treeIndexValue pk = Inr (v, p2)
         \<and> map_of (known (treeOf 1)) (Number treeIndex) = Some (MapVal [(key, v)]))
   \<and> specNestedMessage (\<lambda>name. tree) 1 treeIndexValue fives = Inr (MessageVal (treeOf 0), fives)
   \<and> newDynamicProtoRand exampleSchema (exampleSchema ''Node'') 16 fives =
       Inr (nodeChain 16, fives)
   \<and> Fields (exampleSchema ''Node'') = [nodeValue] @ nodeNext # []
   \<and> Cardinality nodeNext = Singular
   \<and> (\<exists>v p2. specNestedMessage exampleSchema 16 nodeNext fives = Inr (v, p2)
         \<and> map_of (known (nodeChain 16)) (Number nodeNext) = Some v)
   \<and> specNestedMessage exampleSchema 16 nodeNext fives = Inr (MessageVal (nodeChain 15), fives)
   \<and> Gen exampleSchema (GeneratedMessage (Message ''Node'' [])) fives =
       Inr (GeneratedMessage (nodeChain 16), fives)
   \<and> Gen exampleSchema (DynamicMessage (Message ''Node'' [])) fives =
       Inl (Panic ''invalid memory address or nil pointer dereference'')"
proof -
  have k: "Kind nodeNext = MessageKind" "MessageName nodeNext = ''Node''"
    by (simp_all add: nodeNext_def)
  have empty: "NewMessage (exampleSchema ''Node'') = Message ''Node'' []"
    by (simp add: node_fields)
  note budget = nested_message_depth_budget [where fd = nodeNext and S = exampleSchema
      and p = fives and mds = "exampleSchema ''Node''"]
  from budget [where allowedDepth = 1] k node_chain [of 0]
  have one: "getRandValue exampleSchema 1 nodeNext fives = Inr (MessageVal (nodeChain 0), fives)"
    by simp
  from budget [where allowedDepth = 0] k empty
  have zero: "getRandValue exampleSchema 0 nodeNext fives =
      Inr (MessageVal (Message ''Node'' []), fives)"
    by simp
  from budget [where allowedDepth = 0] node_chain [of 16]
  have top: "NewDynamicProtoRand exampleSchema (exampleSchema ''Node'') fives =
      Inr (nodeChain 16, fives)"
    by simp
  have "Message ''Node'' (known (nodeChain n)) = nodeChain n" for n
    by (cases n) simp_all
  then have whole: "Message ''Node'' (known (nodeChain 16)) = nodeChain 16" .
  from budget [where allowedDepth = 0 and inp = "GeneratedMessage (Message ''Node'' [])"]
    node_chain [of 16] whole
  have gen: "Gen exampleSchema (GeneratedMessage (Message ''Node'' [])) fives =
      Inr (GeneratedMessage (nodeChain 16), fives)"
    by simp
  from budget [where allowedDepth = 0 and inp = "DynamicMessage (Message ''Node'' [])"]
    node_chain [of 16]
  have dyn: "Gen exampleSchema (DynamicMessage (Message ''Node'' [])) fives =
      Inl (Panic ''invalid memory address or nil pointer dereference'')"
    by simp
  have t: "Kind treeChildren = MessageKind" "Cardinality treeChildren = Repeated"
      "distinct (map Number (Fields tree))" "Fields tree = [] @ treeChildren # [treeIndex]"
      "\<not> notPopulated sel treeChildren" for sel
    by (simp_all add: tree_defs notPopulated_def)
  from tree_one(2) t(3,4)
  have run: "newDynamicProtoRand (\<lambda>name. tree) tree 1 fives = Inr (treeOf 1, fives)
      \<and> distinct (map Number (Fields tree)) \<and> Fields tree = [] @ treeChildren # [treeIndex]"
    by (intro conjI)
  from nested_message_depth_budget [where fd = treeChildren and S = "\<lambda>name. tree"
      and p = fives and mds = tree and allowedDepth = 1 and dm = "treeOf 1" and p' = fives
      and before = "[]" and after = "[treeIndex]"
      and inp = "GeneratedMessage (Message ''Tree'' [])"]
    run
  obtain sel p0 dm1 p1 where
    so: "selectOneofs (Oneofs tree) Map.empty fives = Inr (sel, p0)" and
    b: "populateFields (\<lambda>name. tree) 1 sel [] (NewMessage tree) p0 = Inr (dm1, p1)" and
    r: "\<not> notPopulated sel treeChildren \<and> Kind treeChildren = MessageKind
        \<and> Cardinality treeChildren = Repeated \<longrightarrow>
      (\<exists>v p2. specNestedMessage (\<lambda>name. tree) 1 treeChildren p1 = Inr (v, p2)
         \<and> map_of (known (treeOf 1)) (Number treeChildren) = Some (ListVal [v]))"
    by blast
  from so b have "p1 = fives" by (simp add: tree_def)
  with r t(1,2,5)
  have loop: "\<exists>v p2. specNestedMessage (\<lambda>name. tree) 1 treeChildren fives = Inr (v, p2)
      \<and> map_of (known (treeOf 1)) (Number treeChildren) = Some (ListVal [v])"
    by blast
  have rule: "specNestedMessage (\<lambda>name. tree) 1 treeChildren fives =
      Inr (MessageVal (treeOf 0), fives)"
    by (simp add: specNestedMessage_def tree_one(1))
  have stored: "map_of (known (treeOf 1)) 1 = Some (ListVal [MessageVal (treeOf 0)])"
      "map_of (known (treeOf 1)) 2 = Some (MapVal [(Int32Val 5, MessageVal (treeOf 0))])"
      "map_of (known (treeOf 0)) 1 = Some (ListVal [MessageVal (Message ''Tree'' [])])"
      "map_of (known (treeOf 0)) 2 =
         Some (MapVal [(Int32Val 5, MessageVal (Message ''Tree'' []))])"
    by (simp_all add: numeral_2_eq_2 del: treeOf.simps(2)) (simp_all add: eval_nat_numeral)
  have u: "Fields tree = [treeChildren] @ treeIndex # []"
      "Cardinality treeIndex = MapOf treeIndexKey treeIndexValue"
      "Kind treeIndexValue = MessageKind"
      "\<not> notPopulated sel treeIndex" for sel
    by (simp_all add: tree_defs notPopulated_def)
  from tree_one(2) t(3) u(1)
  have run_map: "newDynamicProtoRand (\<lambda>name. tree) tree 1 fives = Inr (treeOf 1, fives)
      \<and> distinct (map Number (Fields tree)) \<and> Fields tree = [treeChildren] @ treeIndex # []"
    by (intro conjI)
  from nested_message_depth_budget [where fd = treeIndex and S = "\<lambda>name. tree"
      and p = fives and mds = tree and allowedDepth = 1 and dm = "treeOf 1" and p' = fives
      and before = "[treeChildren]" and after = "[]"
      and inp = "GeneratedMessage (Message ''Tree'' [])"]
    run_map
  obtain sel2 q0 dm2 q1 where
    so2: "selectOneofs (Oneofs tree) Map.empty fives = Inr (sel2, q0)" and
    b2: "populateFields (\<lambda>name. tree) 1 sel2 [treeChildren] (NewMessage tree) q0 =
      Inr (dm2, q1)" and
    r2: "\<forall>keyfd valuefd.
        \<not> notPopulated sel2 treeIndex \<and> Cardinality treeIndex = MapOf keyfd valuefd \<longrightarrow>
        (\<exists>key pk v p2.
            getRandValue (\<lambda>name. tree) 1 keyfd q1 = Inr (key, pk)
          \<and> getRandValue (\<lambda>name. tree) 1 valuefd pk = Inr (v, p2)
          \<and> (Kind keyfd = MessageKind \<longrightarrow>
               specNestedMessage (\<lambda>name. tree) 1 keyfd q1 = Inr (key, pk))
          \<and> (Kind valuefd = MessageKind \<longrightarrow>
               specNestedMessage (\<lambda>name. tree) 1 valuefd pk = Inr (v, p2))
          \<and> map_of (known (treeOf 1)) (Number treeIndex) = Some (MapVal [(key, v)]))"
    by blast
  from so2 have "q0 = fives" by (simp add: tree_def)
  with b2 tree_head [of sel2] have "q1 = fives" by simp
  with r2 u(2,3,4)
  have entry: "\<exists>key pk v p2.
        getRandValue (\<lambda>name. tree) 1 treeIndexKey fives = Inr (key, pk)
      \<and> specNestedMessage (\<lambda>name. tree) 1 treeIndexValue pk = Inr (v, p2)
      \<and> map_of (known (treeOf 1)) (Number treeIndex) = Some (MapVal [(key, v)])"
    by blast
  have rule_map: "specNestedMessage (\<lambda>name. tree) 1 treeIndexValue fives =
      Inr (MessageVal (treeOf 0), fives)"
    by (simp add: specNestedMessage_def tree_one(1) treeIndexValue_def)
  have n: "distinct (map Number (Fields (exampleSchema ''Node'')))"
      "Fields (exampleSchema ''Node'') = [nodeValue] @ nodeNext # []"
      "Cardinality nodeNext = Singular"
      "\<not> notPopulated sel nodeNext" for sel
    by (simp_all add: node_fields notPopulated_def)
  from node_chain [of 16]
  have sixteen: "newDynamicProtoRand exampleSchema (exampleSchema ''Node'') 16 fives =
      Inr (nodeChain 16, fives)"
    by simp
  from sixteen n(1,2)
  have run_node: "newDynamicProtoRand exampleSchema (exampleSchema ''Node'') 16 fives =
        Inr (nodeChain 16, fives)
      \<and> distinct (map Number (Fields (exampleSchema ''Node'')))
      \<and> Fields (exampleSchema ''Node'') = [nodeValue] @ nodeNext # []"
    by (intro conjI)
  from budget [where allowedDepth = 16 and dm = "nodeChain 16" and p' = fives
      and before = "[nodeValue]" and after = "[]"
      and inp = "GeneratedMessage (Message ''Node'' [])"]
    run_node
  obtain sel3 s0 dm3 s1 where
    so3: "selectOneofs (Oneofs (exampleSchema ''Node'')) Map.empty fives = Inr (sel3, s0)" and
    b3: "populateFields exampleSchema 16 sel3 [nodeValue] (NewMessage (exampleSchema ''Node'')) s0 =
      Inr (dm3, s1)" and
    r3: "\<not> notPopulated sel3 nodeNext \<and> Kind nodeNext = MessageKind
        \<and> Cardinality nodeNext = Singular \<longrightarrow>
      (\<exists>v p2. specNestedMessage exampleSchema 16 nodeNext s1 = Inr (v, p2)
         \<and> map_of (known (nodeChain 16)) (Number nodeNext) = Some v)"
    by blast
  from so3 have "s0 = fives" by (simp add: node_fields)
  with b3 node_head [of 16 sel3] have "s1 = fives" by simp
  with r3 k(1) n(3,4)
  have single: "\<exists>v p2. specNestedMessage exampleSchema 16 nodeNext fives = Inr (v, p2)
      \<and> map_of (known (nodeChain 16)) (Number nodeNext) = Some v"
    by blast
  from node_chain [of 15]
  have rule_node: "specNestedMessage exampleSchema 16 nodeNext fives =
      Inr (MessageVal (nodeChain 15), fives)"
    by (simp add: specNestedMessage_def nodeNext_def)
  from k(1) one zero top tree_one(2) t(3,4,1,2) loop rule stored
    u(1,2,3) entry rule_map sixteen n(2,3) single rule_node gen dyn
  show ?thesis by (intro conjI) simp_all
qed

text \<open>
  C2. A generated message of a well-formed descriptor (distinct field numbers, distinct
  oneof names, the members of each oneof being the fields that name it): in every oneof
  that has a member, exactly one member is populated.
\<close>

theorem oneof_exactly_one_member:
  assumes gen: "newDynamicProtoRand S mds allowedDepth p = Inr (dm, p')"
    and numbers: "distinct (map Number (Fields mds))"
    and names: "distinct (map OneofName (Oneofs mds))"
    and members: "\<forall>group \<in> set (Oneofs mds).
        set (OneofFields group) =
          set (map Number
            (filter (\<lambda>f. ContainingOneof f = Some (OneofName group)) (Fields mds)))"
    and group: "oneOf \<in> set (Oneofs mds)" "OneofFields oneOf \<noteq> []"
  shows "\<exists>!n. n \<in> set (OneofFields oneOf) \<and> populated dm n"
proof -
  from gen obtain sel p0 where
    so: "selectOneofs (Oneofs mds) Map.empty p = Inr (sel, p0)" and
    pf: "populateFields S allowedDepth sel (Fields mds) (NewMessage mds) p0 = Inr (dm, p')"
    by (rule newDynamicProtoRand_Inr)
  from selectOneofs_chosen [OF so names group(1)] obtain n0 where
    n0: "n0 \<in> set (OneofFields oneOf)" "sel (OneofName oneOf) = Some n0"
    by blast
  have pop: "populated dm n \<longleftrightarrow>
      (\<exists>fd \<in> set (Fields mds). Number fd = n \<and> \<not> notPopulated sel fd)" for n
    using populateFields_populated [OF pf, of n] by (simp add: populated_def NewMessage_def)
  have mem: "set (OneofFields oneOf) =
      {Number f | f. f \<in> set (Fields mds) \<and> ContainingOneof f = Some (OneofName oneOf)}"
    using members group(1) by auto
  have iff: "populated dm n \<longleftrightarrow> n = n0" if "n \<in> set (OneofFields oneOf)" for n
  proof -
    from that mem obtain f where f: "f \<in> set (Fields mds)" "Number f = n"
        "ContainingOneof f = Some (OneofName oneOf)"
      by auto
    have "\<not> notPopulated sel f \<longleftrightarrow> n = n0"
      using f n0 by (auto simp: notPopulated_def)
    moreover have "f' = f" if "f' \<in> set (Fields mds)" "Number f' = n" for f'
      using that f numbers by (auto simp: distinct_map inj_on_def)
    ultimately show ?thesis
      using pop [of n] f by blast
  qed
  with n0 show ?thesis by blast
qed

theorem oneof_exactly_one_member_witness:
  "newDynamicProtoRand exampleSchema (exampleSchema ''Sample'') 16 fives = Inr (sampleMessage, fives)
   \<and> distinct (map Number (Fields (exampleSchema ''Sample'')))
   \<and> distinct (map OneofName (Oneofs (exampleSchema ''Sample'')))
   \<and> sampleChoice \<in> set (Oneofs (exampleSchema ''Sample''))
   \<and> OneofFields sampleChoice = [3, 4, 5]
   \<and> (\<exists>!n. n \<in> set (OneofFields sampleChoice) \<and> populated sampleMessage n)
   \<and> populated sampleMessage 5"
proof -
  have gen: "newDynamicProtoRand exampleSchema (exampleSchema ''Sample'') 16 fives =
      Inr (sampleMessage, fives)"
    by (simp add: sampleMessage_def example_defs example_simps)
  have numbers: "distinct (map Number (Fields (exampleSchema ''Sample'')))"
    by (simp add: example_defs)
  have names: "distinct (map OneofName (Oneofs (exampleSchema ''Sample'')))"
    by (simp add: example_defs)
  have members: "\<forall>group \<in> set (Oneofs (exampleSchema ''Sample'')).
      set (OneofFields group) =
        set (map Number
          (filter (\<lambda>f. ContainingOneof f = Some (OneofName group))
            (Fields (exampleSchema ''Sample''))))"
    by (simp add: example_defs)
  have group: "sampleChoice \<in> set (Oneofs (exampleSchema ''Sample''))"
      "OneofFields sampleChoice \<noteq> []"
    by (simp_all add: example_defs)
  have fields: "OneofFields sampleChoice = [3, 4, 5]"
    by (simp add: sampleChoice_def)
  have five: "populated sampleMessage 5"
    by (simp add: populated_def sampleMessage_def)
  have one: "\<exists>!n. n \<in> set (OneofFields sampleChoice) \<and> populated sampleMessage n"
    by (rule oneof_exactly_one_member [OF gen numbers names members group])
  from gen numbers names group(1) fields one five show ?thesis
    by (intro conjI)
qed

text \<open>
  C3. An enum with \<open>N \<ge> 2\<close> declared values: the index is drawn by \<^verbatim>\<open>Intn(N - 1)\<close>, so it
  lies in \<open>[0, N - 2]\<close>, and the generated number is that of the value at the index; the
  last declared value is never the one selected, and where the declared numbers are
  distinct its number is never generated. For three declared values the generated number
  is that of the first or of the second.
\<close>

theorem enum_excludes_last:
  assumes "2 \<le> length values"
  shows "\<exists>i r'. Intn (int (length values) - 1) (rand p) = Inr (i, r')
           \<and> 0 \<le> i \<and> i \<le> int (length values) - 2
           \<and> chooseEnumValueRandomly values p =
               Inr (EnumValueNumber (values ! nat i), p\<lparr>rand := r'\<rparr>)
           \<and> (Kind fd = EnumKind \<and> EnumValues fd = values \<longrightarrow>
                getRandValue S allowedDepth fd p =
                  Inr (EnumVal (EnumValueNumber (values ! nat i)), p\<lparr>rand := r'\<rparr>))
           \<and> (distinct (map EnumValueNumber values) \<longrightarrow>
                EnumValueNumber (values ! nat i) \<noteq> EnumValueNumber (last values))
           \<and> (\<forall>v0 v1 v2. values = [v0, v1, v2] \<longrightarrow>
                EnumValueNumber (values ! nat i) \<in> {EnumValueNumber v0, EnumValueNumber v1})"
proof -
  from assms have pos: "0 < int (length values) - 1" by simp
  obtain i r' where i: "Intn (int (length values) - 1) (rand p) = Inr (i, r')"
      "0 \<le> i" "i < int (length values) - 1"
    using Intn_range [OF pos] by blast
  have c: "chooseEnumValueRandomly values p =
      Inr (EnumValueNumber (values ! nat i), p\<lparr>rand := r'\<rparr>)"
    using assms i by (simp add: chooseEnumValueRandomly_def Get_def)
  have g: "getRandValue S allowedDepth fd p =
      Inr (EnumVal (EnumValueNumber (values ! nat i)), p\<lparr>rand := r'\<rparr>)"
    if "Kind fd = EnumKind" "EnumValues fd = values"
    using that c by (simp add: getRandValue.simps)
  have d: "EnumValueNumber (values ! nat i) \<noteq> EnumValueNumber (last values)"
    if "distinct (map EnumValueNumber values)"
  proof -
    have ne: "values \<noteq> []" using assms by auto
    have "nat i < length values" "length values - 1 < length values"
        "nat i \<noteq> length values - 1"
      using i assms by auto
    with that have "map EnumValueNumber values ! nat i
        \<noteq> map EnumValueNumber values ! (length values - 1)"
      using nth_eq_iff_index_eq [of "map EnumValueNumber values" "nat i" "length values - 1"]
      by (simp del: nth_map)
    then show ?thesis
      using ne \<open>nat i < length values\<close> by (simp add: last_conv_nth)
  qed
  have t: "EnumValueNumber (values ! nat i) \<in> {EnumValueNumber v0, EnumValueNumber v1}"
    if "values = [v0, v1, v2]" for v0 v1 v2
  proof -
    from that i have "nat i = 0 \<or> nat i = 1" by auto
    with that show ?thesis by auto
  qed
  from i c g d t show ?thesis by auto
qed

theorem enum_excludes_last_witness:
  "2 \<le> length colours
   \<and> chooseEnumValueRandomly colours fives = Inr (1, fives)
   \<and> getRandValue exampleSchema 16 (FieldDescriptor 1 EnumKind Singular None colours []) fives =
       Inr (EnumVal 1, fives)
   \<and> EnumValueNumber (last colours) = 2"
  using enum_excludes_last
    [of colours fives "FieldDescriptor 1 EnumKind Singular None colours []" exampleSchema 16]
  by (simp add: example_defs example_simps)

text \<open>
  C5. \<^verbatim>\<open>newDynamicProtoRand\<close> returns the error \<^verbatim>\<open>unexpected type: k\<close> exactly when the
  traversal reaches a field whose kind \<open>k\<close> has no case in the switch of \<^verbatim>\<open>getRandValue\<close>,
  as the field itself, the element of a list, or the key or value of a map, at any depth
  the budget allows; likewise \<^verbatim>\<open>NewDynamicProtoRand\<close> and \<^verbatim>\<open>Gen\<close>. The result is then the
  error alone, with no message. For well-formed descriptors this error is the only
  failure there is: the call fails exactly when such a field is reached.
\<close>

theorem fails_iff_unsupported_kind_reached:
  "(newDynamicProtoRand S mds allowedDepth p = Inl (UnexpectedType k) \<longleftrightarrow>
      (\<exists>fd. reachesMessage S mds allowedDepth p fd
         \<and> Kind fd \<notin> set dispatchKinds \<and> k = Kind fd))
   \<and> (NewDynamicProtoRand S mds p = Inl (UnexpectedType k) \<longleftrightarrow>
      (\<exists>fd. reachesMessage S mds MaxDepth p fd
         \<and> Kind fd \<notin> set dispatchKinds \<and> k = Kind fd))
   \<and> (Gen S inp p = Inl (UnexpectedType k) \<longleftrightarrow>
      (\<exists>fd. reachesMessage S (S (Descriptor (ProtoReflect inp))) MaxDepth p fd
         \<and> Kind fd \<notin> set dispatchKinds \<and> k = Kind fd))
   \<and> (newDynamicProtoRand S mds allowedDepth p = Inl err \<longrightarrow>
        (\<forall>dm p'. newDynamicProtoRand S mds allowedDepth p \<noteq> Inr (dm, p')))
   \<and> (wellFormed mds \<and> (\<forall>name. wellFormed (S name)) \<longrightarrow>
        ((\<exists>e. newDynamicProtoRand S mds allowedDepth p = Inl e) \<longleftrightarrow>
         (\<exists>fd. reachesMessage S mds allowedDepth p fd \<and> Kind fd \<notin> set dispatchKinds)))"
proof -
  have main: "newDynamicProtoRand S m d p = Inl (UnexpectedType k) \<longleftrightarrow>
      (\<exists>fd. reachesMessage S m d p fd \<and> Kind fd \<notin> set dispatchKinds \<and> k = Kind fd)"
    for m d k
    using newDynamicProtoRand_fails [OF getRandValue_fails, of S d k m p]
      reaches_unsupported_fails(1) [of S m d p]
    by blast
  have entry: "NewDynamicProtoRand S m p = Inl (UnexpectedType k) \<longleftrightarrow>
      (\<exists>fd. reachesMessage S m MaxDepth p fd \<and> Kind fd \<notin> set dispatchKinds \<and> k = Kind fd)"
    for m
    using main [of m MaxDepth k] by (simp add: NewDynamicProtoRand_def)
  have "Gen S inp p = Inl (UnexpectedType k) \<longleftrightarrow>
      NewDynamicProtoRand S (S (Descriptor (ProtoReflect inp))) p = Inl (UnexpectedType k)"
    by (simp add: Gen_def split: sum.splits prod.splits ProtoMessage.splits)
  with entry [of "S (Descriptor (ProtoReflect inp))"]
  have gen: "Gen S inp p = Inl (UnexpectedType k) \<longleftrightarrow>
      (\<exists>fd. reachesMessage S (S (Descriptor (ProtoReflect inp))) MaxDepth p fd
         \<and> Kind fd \<notin> set dispatchKinds \<and> k = Kind fd)"
    by simp
  have alone: "\<forall>dm p'. newDynamicProtoRand S mds allowedDepth p \<noteq> Inr (dm, p')"
    if "newDynamicProtoRand S mds allowedDepth p = Inl err"
    using that by simp
  have only: "(\<exists>e. newDynamicProtoRand S mds allowedDepth p = Inl e) \<longleftrightarrow>
      (\<exists>fd. reachesMessage S mds allowedDepth p fd \<and> Kind fd \<notin> set dispatchKinds)"
    if wf: "wellFormed mds" "\<forall>name. wellFormed (S name)"
  proof
    assume "\<exists>e. newDynamicProtoRand S mds allowedDepth p = Inl e"
    then obtain e where e: "newDynamicProtoRand S mds allowedDepth p = Inl e" ..
    have "getRandValue S allowedDepth fd q \<noteq> Inl (Panic s)" for fd q s
      using wf(2) by (intro getRandValue_no_panic) simp
    then have "newDynamicProtoRand S mds allowedDepth p \<noteq> Inl (Panic s)" for s
      using wf(1) by (intro newDynamicProtoRand_no_panic)
    with e obtain k' where "e = UnexpectedType k'" by (cases e) auto
    with e main [of mds allowedDepth k']
    show "\<exists>fd. reachesMessage S mds allowedDepth p fd \<and> Kind fd \<notin> set dispatchKinds"
      by blast
  next
    assume "\<exists>fd. reachesMessage S mds allowedDepth p fd \<and> Kind fd \<notin> set dispatchKinds"
    then obtain fd where "reachesMessage S mds allowedDepth p fd"
        "Kind fd \<notin> set dispatchKinds"
      by blast
    with main [of mds allowedDepth "Kind fd"]
    show "\<exists>e. newDynamicProtoRand S mds allowedDepth p = Inl e" by blast
  qed
  from main [of mds allowedDepth k] entry [of mds] gen alone only show ?thesis by blast
qed

theorem fails_iff_unsupported_kind_reached_witness:
  "newDynamicProtoRand exampleSchema (exampleSchema ''Legacy'') 16 fives =
     Inl (UnexpectedType GroupKind)
   \<and> (\<exists>fd. reachesMessage exampleSchema (exampleSchema ''Legacy'') 16 fives fd
         \<and> Kind fd \<notin> set dispatchKinds \<and> GroupKind = Kind fd)
   \<and> wellFormed (exampleSchema ''Legacy'')
   \<and> (\<forall>name. wellFormed (exampleSchema name))
   \<and> (\<exists>e. newDynamicProtoRand exampleSchema (exampleSchema ''Legacy'') 16 fives = Inl e)
   \<and> newDynamicProtoRand exampleSchema (exampleSchema ''Node'') 1 fives
       \<noteq> Inl (UnexpectedType GroupKind)
   \<and> \<not> (\<exists>fd. reachesMessage exampleSchema (exampleSchema ''Node'') 1 fives fd
         \<and> Kind fd \<notin> set dispatchKinds \<and> GroupKind = Kind fd)"
proof -
  have f: "newDynamicProtoRand exampleSchema (exampleSchema ''Legacy'') 16 fives =
      Inl (UnexpectedType GroupKind)"
    by (simp add: example_defs example_simps)
  have n: "newDynamicProtoRand exampleSchema (exampleSchema ''Node'') 1 fives
      \<noteq> Inl (UnexpectedType GroupKind)"
    by (simp add: example_defs example_simps)
  have wf: "wellFormed (exampleSchema name)" for name
  proof -
    have "wellFormed (exampleSchema ''Node'')" "wellFormed (exampleSchema ''Sample'')"
        "wellFormed (exampleSchema ''Legacy'')"
        "wellFormed \<lparr>FullName = name, Fields = [], Oneofs = []\<rparr>"
      by (simp_all add: wellFormed_def example_defs)
    then show ?thesis
      by (cases "name = ''Node''"; cases "name = ''Sample''"; cases "name = ''Legacy''")
        (simp_all add: exampleSchema_def)
  qed
  from f n wf
    fails_iff_unsupported_kind_reached
      [of exampleSchema "exampleSchema ''Legacy''" 16 fives GroupKind
          "GeneratedMessage (Message ''Legacy'' [])"
          "UnexpectedType GroupKind"]
    fails_iff_unsupported_kind_reached
      [of exampleSchema "exampleSchema ''Node''" 1 fives GroupKind
          "GeneratedMessage (Message ''Node'' [])"
          "UnexpectedType GroupKind"]
  show ?thesis by blast
qed

text \<open>
  C6. A generated message of a descriptor with distinct field numbers: a repeated field
  holds a list of exactly one element and a map field a map of exactly one entry. (A
  repeated or map field is never a member of a oneof.)
\<close>

theorem collections_are_singletons:
  assumes "newDynamicProtoRand S mds allowedDepth p = Inr (dm, p')"
    and "distinct (map Number (Fields mds))"
    and "fd \<in> set (Fields mds)"
    and "ContainingOneof fd = None"
  shows "(Cardinality fd = Repeated \<longrightarrow>
            (\<exists>x. map_of (known dm) (Number fd) = Some (ListVal [x])))
         \<and> (\<forall>keyfd valuefd. Cardinality fd = MapOf keyfd valuefd \<longrightarrow>
            (\<exists>key x. map_of (known dm) (Number fd) = Some (MapVal [(key, x)])))"
proof -
  from assms(1) obtain sel p0 where
    pf: "populateFields S allowedDepth sel (Fields mds) (NewMessage mds) p0 = Inr (dm, p')"
    by (rule newDynamicProtoRand_Inr)
  from assms(4) have "\<not> notPopulated sel fd" by (simp add: notPopulated_def)
  moreover have "map_of (known (NewMessage mds)) (Number fd) = None"
    by (simp add: NewMessage_def)
  ultimately show ?thesis
    using populateFields_collection [OF pf assms(2) assms(3)] by fastforce
qed

theorem collections_are_singletons_witness:
  "newDynamicProtoRand exampleSchema (exampleSchema ''Sample'') 16 fives = Inr (sampleMessage, fives)
   \<and> distinct (map Number (Fields (exampleSchema ''Sample'')))
   \<and> sampleColours \<in> set (Fields (exampleSchema ''Sample''))
   \<and> ContainingOneof sampleColours = None \<and> Cardinality sampleColours = Repeated
   \<and> (\<exists>x. map_of (known sampleMessage) (Number sampleColours) = Some (ListVal [x]))
   \<and> sampleIndex \<in> set (Fields (exampleSchema ''Sample''))
   \<and> ContainingOneof sampleIndex = None
   \<and> (\<exists>key x. map_of (known sampleMessage) (Number sampleIndex) = Some (MapVal [(key, x)]))"
proof -
  have gen: "newDynamicProtoRand exampleSchema (exampleSchema ''Sample'') 16 fives =
      Inr (sampleMessage, fives)"
    by (simp add: sampleMessage_def example_defs example_simps)
  have numbers: "distinct (map Number (Fields (exampleSchema ''Sample'')))"
    by (simp add: example_defs)
  have c: "sampleColours \<in> set (Fields (exampleSchema ''Sample''))"
      "ContainingOneof sampleColours = None" "Cardinality sampleColours = Repeated"
    by (simp_all add: example_defs)
  have i: "sampleIndex \<in> set (Fields (exampleSchema ''Sample''))"
      "ContainingOneof sampleIndex = None"
      "Cardinality sampleIndex = MapOf (FieldDescriptor 1 Int32Kind Singular None [] [])
         (FieldDescriptor 2 BoolKind Singular None [] [])"
    by (simp_all add: example_defs)
  from collections_are_singletons [OF gen numbers c(1) c(2)]
    collections_are_singletons [OF gen numbers i(1) i(2)]
    gen numbers c i
  show ?thesis by blast
qed

text \<open>
  C7. Every call of the generator terminates: every argument of \<^verbatim>\<open>newDynamicProtoRand\<close>,
  of its closure and of its field loop lies in the accessible part of the recursion
  relation, for any schema, cyclic or not. The relation itself shows why: a call of
  \<^verbatim>\<open>newDynamicProtoRand\<close> made from within the generator comes from \<^verbatim>\<open>getRandValue\<close> on a
  field of message kind whose budget is positive and one more than the callee's. The
  draws return as well: the redraw loops of \<^verbatim>\<open>math/rand\<close> are recursive functions of the
  model, shown to terminate where they are defined.
\<close>

theorem generation_terminates:
  "newDynamicProtoRand_getRandValue_populateFields_dom (Inl (S, mds, allowedDepth, p))
   \<and> newDynamicProtoRand_getRandValue_populateFields_dom (Inr (Inl (S, allowedDepth, fd, p)))
   \<and> newDynamicProtoRand_getRandValue_populateFields_dom
        (Inr (Inr (S, allowedDepth, populatedOneOfField, fds, dm, p)))
   \<and> (newDynamicProtoRand_getRandValue_populateFields_rel (Inl (S', mds', d', p')) caller \<longrightarrow>
        (\<exists>fd'. caller = Inr (Inl (S', d' + 1, fd', p')) \<and> 0 \<le> d'
           \<and> Kind fd' = MessageKind \<and> mds' = S' (MessageName fd')))"
proof -
  have "All newDynamicProtoRand_getRandValue_populateFields_dom"
    by (relation "(\<lambda>x. case x of
             Inl (S, mds, d, p) \<Rightarrow> nat d
           | Inr (Inl (S, d, fd, p)) \<Rightarrow> nat d
           | Inr (Inr (S, d, sel, fds, dm, p)) \<Rightarrow> nat d) <*mlex*>
        (\<lambda>x. case x of
             Inl (S, mds, d, p) \<Rightarrow> 1
           | Inr (Inl (S, d, fd, p)) \<Rightarrow> 0
           | Inr (Inr (S, d, sel, fds, dm, p)) \<Rightarrow> 0) <*mlex*>
        (\<lambda>x. case x of
             Inl (S, mds, d, p) \<Rightarrow> 0
           | Inr (Inl (S, d, fd, p)) \<Rightarrow> 0
           | Inr (Inr (S, d, sel, fds, dm, p)) \<Rightarrow> Suc (length fds)) <*mlex*> {}")
       (auto simp: wf_mlex mlex_prod_def)
  moreover have "\<exists>fd'. caller = Inr (Inl (S', d' + 1, fd', p')) \<and> 0 \<le> d'
      \<and> Kind fd' = MessageKind \<and> mds' = S' (MessageName fd')"
    if "newDynamicProtoRand_getRandValue_populateFields_rel (Inl (S', mds', d', p')) caller"
    using that by (cases rule: newDynamicProtoRand_getRandValue_populateFields_rel.cases) auto
  ultimately show ?thesis by blast
qed

theorem generation_terminates_witness:
  "newDynamicProtoRand_getRandValue_populateFields_dom
     (Inl (exampleSchema, exampleSchema ''Node'', 16, fives))
   \<and> newDynamicProtoRand_getRandValue_populateFields_rel
       (Inl (exampleSchema, exampleSchema ''Node'', 15, fives))
       (Inr (Inl (exampleSchema, 16, nodeNext, fives)))
   \<and> Kind nodeNext = MessageKind
   \<and> exampleSchema ''Node'' = exampleSchema (MessageName nodeNext)"
proof -
  have k: "Kind nodeNext = MessageKind" "MessageName nodeNext = ''Node''"
    by (simp_all add: nodeNext_def)
  have "newDynamicProtoRand_getRandValue_populateFields_rel
       (Inl (exampleSchema, exampleSchema (MessageName nodeNext), 16 - 1, fives))
       (Inr (Inl (exampleSchema, 16, nodeNext, fives)))"
    by (rule newDynamicProtoRand_getRandValue_populateFields_rel.intros) (simp_all add: k)
  then have r: "newDynamicProtoRand_getRandValue_populateFields_rel
       (Inl (exampleSchema, exampleSchema ''Node'', 15, fives))
       (Inr (Inl (exampleSchema, 16, nodeNext, fives)))"
    by (simp add: k)
  from r k generation_terminates
    [of exampleSchema "exampleSchema ''Node''" 16 fives nodeNext Map.empty "[]"
        "Message ''Node'' []" exampleSchema "exampleSchema ''Node''" 15 fives
        "Inr (Inl (exampleSchema, 16, nodeNext, fives))"]
  show ?thesis by simp
qed

text \<open>
  C8, as amended. \<^verbatim>\<open>randInt32\<close> is \<^verbatim>\<open>rand.Int31()\<close> and \<^verbatim>\<open>randInt64\<close> is \<^verbatim>\<open>rand.Int63()\<close>:
  the draws are never negative, they lie in \<open>[0, 2^31)\<close> and in \<open>[0, 2^63)\<close>, and every
  value of that range is the draw of some generator state. These two draws back the
  fields of kind int32, sint32, sfixed32 and int64, sint64, sfixed64.
\<close>

theorem signed_draws_nonnegative:
  "0 \<le> sint (fst (randInt32 p)) \<and> sint (fst (randInt32 p)) < 2 ^ 31
   \<and> 0 \<le> sint (fst (randInt64 p)) \<and> sint (fst (randInt64 p)) < 2 ^ 63
   \<and> (\<forall>v. 0 \<le> sint v \<longrightarrow> (\<exists>q. fst (randInt32 q) = v))
   \<and> (\<forall>v. 0 \<le> sint v \<longrightarrow> (\<exists>q. fst (randInt64 q) = v))
   \<and> (Kind fd \<in> {Int32Kind, Sint32Kind, Sfixed32Kind} \<longrightarrow>
        getRandValue S allowedDepth fd p = Inr (Int32Val (fst (randInt32 p)), snd (randInt32 p)))
   \<and> (Kind fd \<in> {Int64Kind, Sint64Kind, Sfixed64Kind} \<longrightarrow>
        getRandValue S allowedDepth fd p = Inr (Int64Val (fst (randInt64 p)), snd (randInt64 p)))"
proof -
  have a: "0 \<le> sint (fst (randInt32 p))"
    using Int31_nonneg [of "rand p"] by (simp add: randInt32_def split_beta)
  have b: "sint (fst (randInt32 p)) < 2 ^ 31"
    using sint_less [of "fst (randInt32 p)"] by simp
  have c: "0 \<le> sint (fst (randInt64 p))"
    using Int63_nonneg [of "rand p"] by (simp add: randInt64_def split_beta)
  have d: "sint (fst (randInt64 p)) < 2 ^ 63"
    using sint_less [of "fst (randInt64 p)"] by simp
  have e: "\<exists>q. fst (randInt32 q) = v" if "0 \<le> sint v" for v :: "32 word"
  proof -
    from that have "\<not> bit v 31"
      using bit_last_iff [of v] by simp
    then have "fst (randInt32 \<lparr>rand = ([push_bit 32 (ucast v)], 0) ## sconst ([], 0)\<rparr>) = v"
      by (simp add: randInt32_def Int31_push split_beta)
    then show ?thesis ..
  qed
  have f: "\<exists>q. fst (randInt64 q) = v" if "0 \<le> sint v" for v :: "64 word"
  proof -
    from that have "\<not> bit v 63"
      using bit_last_iff [of v] by simp
    then have "fst (randInt64 \<lparr>rand = ([v], 0) ## sconst ([], 0)\<rparr>) = v"
      by (simp add: randInt64_def Int63_head split_beta)
    then show ?thesis ..
  qed
  have g: "getRandValue S allowedDepth fd p =
      Inr (Int32Val (fst (randInt32 p)), snd (randInt32 p))"
    if "Kind fd \<in> {Int32Kind, Sint32Kind, Sfixed32Kind}"
    using that by (auto simp: getRandValue.simps split_beta)
  have h: "getRandValue S allowedDepth fd p =
      Inr (Int64Val (fst (randInt64 p)), snd (randInt64 p))"
    if "Kind fd \<in> {Int64Kind, Sint64Kind, Sfixed64Kind}"
    using that by (auto simp: getRandValue.simps split_beta)
  from a b c d e f g h show ?thesis by blast
qed

theorem signed_draws_nonnegative_witness:
  "0 \<le> sint (5 :: 32 word)
   \<and> (\<exists>q. fst (randInt32 q) = 5)
   \<and> Kind nodeValue \<in> {Int32Kind, Sint32Kind, Sfixed32Kind}
   \<and> getRandValue exampleSchema 16 nodeValue fives = Inr (Int32Val 5, fives)
   \<and> Kind sampleTotal \<in> {Int64Kind, Sint64Kind, Sfixed64Kind}
   \<and> getRandValue exampleSchema 16 sampleTotal fives = Inr (Int64Val 21474836480, fives)
   \<and> 0 \<le> sint (fst (randInt32 fives))"
  using signed_draws_nonnegative [of fives nodeValue exampleSchema 16]
    signed_draws_nonnegative [of fives sampleTotal exampleSchema 16]
  by (simp add: getRandValue.simps randInt32_def randInt64_def fives_def nodeValue_def
      sampleTotal_def Int31_fives Int63_fives)

text \<open>
  C8 as stated fails: no state of the generator makes \<^verbatim>\<open>randInt32\<close> or \<^verbatim>\<open>randInt64\<close> return
  \<open>-1\<close>.
\<close>

theorem signed_draws_full_range_counterexample:
  "\<not> (\<exists>p. fst (randInt32 p) = - 1) \<and> \<not> (\<exists>p. fst (randInt64 p) = - 1)"
proof -
  have "fst (randInt32 p) \<noteq> - 1" for p
    using Int31_nonneg [of "rand p"] by (auto simp: randInt32_def split_beta)
  moreover have "fst (randInt64 p) \<noteq> - 1" for p
    using Int63_nonneg [of "rand p"] by (auto simp: randInt64_def split_beta)
  ultimately show ?thesis by blast
qed

text \<open>
  C9, as amended. An enum with at most one declared value: \<^verbatim>\<open>chooseEnumValueRandomly\<close>
  returns the enum number 0 and leaves the generator as it was. Where one value is
  declared, that is the number of the declared value exactly when its number is 0.
\<close>

theorem enum_single_value_zero:
  "length values \<le> 1 \<longrightarrow>
     chooseEnumValueRandomly values p = Inr (0, p)
     \<and> (Kind fd = EnumKind \<and> EnumValues fd = values \<longrightarrow>
          getRandValue S allowedDepth fd p = Inr (EnumVal 0, p))
     \<and> (\<forall>v. values = [v] \<longrightarrow>
          (chooseEnumValueRandomly values p = Inr (EnumValueNumber (values ! 0), p)
             \<longleftrightarrow> EnumValueNumber v = 0))"
  by (auto simp: getRandValue.simps chooseEnumValueRandomly_def)

theorem enum_single_value_zero_witness:
  "length [EnumValueDescriptor ''ONLY'' 1] \<le> 1
   \<and> chooseEnumValueRandomly [EnumValueDescriptor ''ONLY'' 1] fives = Inr (0, fives)
   \<and> Kind (FieldDescriptor 1 EnumKind Singular None [EnumValueDescriptor ''ONLY'' 1] [])
       = EnumKind
   \<and> getRandValue exampleSchema 16
       (FieldDescriptor 1 EnumKind Singular None [EnumValueDescriptor ''ONLY'' 1] []) fives =
       Inr (EnumVal 0, fives)
   \<and> chooseEnumValueRandomly [EnumValueDescriptor ''UNSET'' 0] fives =
       Inr (EnumValueNumber ([EnumValueDescriptor ''UNSET'' 0] ! 0), fives)"
  using enum_single_value_zero
    [of "[EnumValueDescriptor ''ONLY'' 1]" fives
        "FieldDescriptor 1 EnumKind Singular None [EnumValueDescriptor ''ONLY'' 1] []"
        exampleSchema 16]
    enum_single_value_zero
    [of "[EnumValueDescriptor ''UNSET'' 0]" fives
        "FieldDescriptor 1 EnumKind Singular None [EnumValueDescriptor ''UNSET'' 0] []"
        exampleSchema 16]
  by simp

text \<open>
  C9 as stated fails: for the enum whose only declared value is \<^verbatim>\<open>ONLY = 1\<close> the generated
  number is 0, not the number of the value at index 0.
\<close>

theorem enum_single_value_counterexample:
  "length [EnumValueDescriptor ''ONLY'' 1] \<le> 1
   \<and> chooseEnumValueRandomly [EnumValueDescriptor ''ONLY'' 1] fives
       \<noteq> Inr (EnumValueNumber ([EnumValueDescriptor ''ONLY'' 1] ! 0), fives)"
  by (simp add: chooseEnumValueRandomly_def)

text \<open>
  C10. A oneof without members: \<^verbatim>\<open>chooseOneOfFieldRandomly\<close> reads \<^verbatim>\<open>Fields().Get(0)\<close> of
  the empty list, which is out of range and panics; \<^verbatim>\<open>newDynamicProtoRand\<close> on a message
  descriptor that declares such a oneof panics, at any depth and for any generator, and
  returns no message; so does the generation of a field of that message type while
  budget is left.
\<close>

theorem empty_oneof_panics:
  "OneofFields oneOf = [] \<longrightarrow>
     Get (OneofFields oneOf) 0 = Inl (Panic ''index out of range'')
     \<and> chooseOneOfFieldRandomly oneOf p = Inl (Panic ''index out of range'')
     \<and> (oneOf \<in> set (Oneofs mds) \<longrightarrow>
          newDynamicProtoRand S mds allowedDepth p = Inl (Panic ''index out of range'')
          \<and> NewDynamicProtoRand S mds p = Inl (Panic ''index out of range'')
          \<and> (\<forall>dm p'. newDynamicProtoRand S mds allowedDepth p \<noteq> Inr (dm, p')))
     \<and> (oneOf \<in> set (Oneofs (S (MessageName fd))) \<and> Kind fd = MessageKind
          \<and> 0 < allowedDepth \<longrightarrow>
          getRandValue S allowedDepth fd p = Inl (Panic ''index out of range''))"
  by (auto simp: newDynamicProtoRand.simps getRandValue.simps chooseOneOf_empty
      selectOneofs_empty_member Get_def NewDynamicProtoRand_def)

theorem empty_oneof_panics_witness:
  "OneofFields (OneofDescriptor ''nothing'' []) = []
   \<and> OneofDescriptor ''nothing'' [] \<in> set (Oneofs hollow)
   \<and> chooseOneOfFieldRandomly (OneofDescriptor ''nothing'' []) fives =
       Inl (Panic ''index out of range'')
   \<and> newDynamicProtoRand exampleSchema hollow 16 fives = Inl (Panic ''index out of range'')
   \<and> Kind nodeNext = MessageKind
   \<and> getRandValue (\<lambda>name. hollow) 16 nodeNext fives = Inl (Panic ''index out of range'')"
proof -
  have h: "OneofFields (OneofDescriptor ''nothing'' []) = []"
      "OneofDescriptor ''nothing'' [] \<in> set (Oneofs hollow)"
      "Kind nodeNext = MessageKind"
    by (simp_all add: hollow_def nodeNext_def)
  from h empty_oneof_panics
    [of "OneofDescriptor ''nothing'' []" fives hollow exampleSchema 16 nodeNext]
    empty_oneof_panics
    [of "OneofDescriptor ''nothing'' []" fives hollow "\<lambda>name. hollow" 16 nodeNext]
  show ?thesis by simp
qed

end
